(* ===== verification/Go_Prelude.thy ===== *)
theory Go_Prelude
  imports Main "HOL-Library.Word"
begin

text \<open>
  What the components share of the Go language and its standard library: machine integers
  and durations, maps with an explicit iteration order, the functions of \<open>strings\<close>,
  \<open>strconv\<close> and \<open>fmt\<close> that the sources call, and the lemma collections of the development.

  \<^item> \<open>int\<close> (64 bits on the supported platforms) and \<open>time.Duration\<close> are \<open>64 word\<close>,
    \<open>int32\<close> is \<open>32 word\<close>; comparisons are the signed ones (\<open>\<le>s\<close>, \<open><s\<close>).
  \<^item> A Go map is a partial function. A \<open>for ... range\<close> over it visits the keys in an order
    that the language leaves open, so every definition that ranges over a map takes the
    order as a list argument, and the theorems quantify over all lists that enumerate the
    keys (\<open>range_order\<close>).
  \<^item> A Go string is a list of bytes (\<open>string\<close>). The case conversions are those of the
    ASCII range.
\<close>

named_theorems go_defs \<open>definitions unfolded by the component proofs\<close>
named_theorems go_frame \<open>what an operation leaves unchanged\<close>
named_theorems go_inv \<open>an operation keeps its component's invariant\<close>

section \<open>Machine integers\<close>

type_synonym int64 = "64 word"
type_synonym uint64 = "64 word"
type_synonym int32 = "32 word"
type_synonym duration = "64 word"

definition Second :: duration where
  "Second = 1000000000"

lemma sint_add_exact:
  fixes a b :: "'a::len word"
  assumes "- (2 ^ (LENGTH('a) - 1)) \<le> sint a + sint b" "sint a + sint b < 2 ^ (LENGTH('a) - 1)"
  shows "sint (a + b) = sint a + sint b"
  using assms by (simp add: sint_word_ariths signed_take_bit_int_eq_self)

lemma sint_diff_exact:
  fixes a b :: "'a::len word"
  assumes "- (2 ^ (LENGTH('a) - 1)) \<le> sint a - sint b" "sint a - sint b < 2 ^ (LENGTH('a) - 1)"
  shows "sint (a - b) = sint a - sint b"
  using assms by (simp add: sint_word_ariths signed_take_bit_int_eq_self)

lemma sint_of_int_exact:
  assumes "- (2 ^ (LENGTH('a::len) - 1)) \<le> k" "k < 2 ^ (LENGTH('a) - 1)"
  shows "sint (word_of_int k :: 'a word) = k"
  using assms by (simp add: sint_sbintrunc' signed_take_bit_int_eq_self)

lemma sint_of_int64:
  "- 9223372036854775808 \<le> k \<Longrightarrow> k < 9223372036854775808 \<Longrightarrow> sint (word_of_int k :: int64) = k"
  by (rule sint_of_int_exact) simp_all

lemma sint_add64:
  "- 9223372036854775808 \<le> sint a + sint b \<Longrightarrow> sint a + sint b < 9223372036854775808 \<Longrightarrow>
     sint (a + b :: int64) = sint a + sint b"
  by (rule sint_add_exact) simp_all

lemma sint_diff64:
  "- 9223372036854775808 \<le> sint a - sint b \<Longrightarrow> sint a - sint b < 9223372036854775808 \<Longrightarrow>
     sint (a - b :: int64) = sint a - sint b"
  by (rule sint_diff_exact) simp_all

lemma sint_of_nat64: "int n < 9223372036854775808 \<Longrightarrow> sint (of_nat n :: int64) = int n"
  using sint_of_int64 [of "int n"] by simp

section \<open>Maps and their iteration order\<close>

definition range_order :: "('k \<rightharpoonup> 'v) \<Rightarrow> 'k list \<Rightarrow> bool" where
  "range_order m ks \<longleftrightarrow> distinct ks \<and> set ks = dom m"

lemma range_order_distinct [dest]: "range_order m ks \<Longrightarrow> distinct ks"
  by (simp add: range_order_def)

lemma range_order_mem: "range_order m ks \<Longrightarrow> k \<in> set ks \<longleftrightarrow> m k \<noteq> None"
  by (auto simp: range_order_def)

lemma range_order_mset:
  "range_order m ks \<Longrightarrow> range_order m ks' \<Longrightarrow> set ks = set ks'"
  by (simp add: range_order_def)

lemma range_order_empty [simp]: "range_order Map.empty ks \<longleftrightarrow> ks = []"
  by (auto simp: range_order_def)

text \<open>A loop \<open>for k, v := range m\<close> whose body updates an accumulator.\<close>

definition for_range :: "'k list \<Rightarrow> ('k \<rightharpoonup> 'v) \<Rightarrow> ('k \<Rightarrow> 'v \<Rightarrow> 's \<Rightarrow> 's) \<Rightarrow> 's \<Rightarrow> 's" where
  "for_range ks m body s =
     fold (\<lambda>k s. case m k of None \<Rightarrow> s | Some v \<Rightarrow> body k v s) ks s"

lemma for_range_Nil [simp]: "for_range [] m body s = s"
  by (simp add: for_range_def)

lemma for_range_Cons [simp]:
  "for_range (k # ks) m body s =
     for_range ks m body (case m k of None \<Rightarrow> s | Some v \<Rightarrow> body k v s)"
  by (simp add: for_range_def)

lemma for_range_append:
  "for_range (ks @ ks') m body s = for_range ks' m body (for_range ks m body s)"
  by (simp add: for_range_def)

lemma for_range_collect:
  "for_range ks m (\<lambda>k v acc. acc @ f k v) acc =
     acc @ concat (map (\<lambda>k. case m k of None \<Rightarrow> [] | Some v \<Rightarrow> f k v) ks)"
  by (induction ks arbitrary: acc) (simp_all split: option.split)

text \<open>\<open>len(m)\<close>, for a map whose keys are among those of an enumeration.\<close>

definition map_len :: "'k list \<Rightarrow> ('k \<rightharpoonup> 'v) \<Rightarrow> nat" where
  "map_len ks m = length (filter (\<lambda>k. m k \<noteq> None) ks)"

lemma map_len_0: "map_len ks m = 0 \<longleftrightarrow> (\<forall>k\<in>set ks. m k = None)"
  by (auto simp: map_len_def filter_empty_conv)

section \<open>Searching a list\<close>

lemma find_SomeD: "find P xs = Some x \<Longrightarrow> x \<in> set xs \<and> P x"
  by (auto simp: find_Some_iff)

lemma find_exists: "x \<in> set xs \<Longrightarrow> P x \<Longrightarrow> \<exists>y. find P xs = Some y"
  by (cases "find P xs") (auto simp: find_None_iff)

lemma find_uniq:
  assumes "x \<in> set xs" "P x" "\<And>y. P y \<Longrightarrow> y = x"
  shows "find P xs = Some x"
  using find_exists [of x xs P] find_SomeD [of P xs] assms by blast

section \<open>Strings\<close>

definition HasPrefix :: "string \<Rightarrow> string \<Rightarrow> bool" where
  "HasPrefix s p \<longleftrightarrow> take (length p) s = p"

definition HasSuffix :: "string \<Rightarrow> string \<Rightarrow> bool" where
  "HasSuffix s p \<longleftrightarrow> length p \<le> length s \<and> drop (length s - length p) s = p"

definition Contains :: "string \<Rightarrow> string \<Rightarrow> bool" where
  "Contains s sub \<longleftrightarrow> list_ex (\<lambda>i. HasPrefix (drop i s) sub) [0..<Suc (length s)]"

lemma HasPrefix_iff: "HasPrefix s p \<longleftrightarrow> (\<exists>t. s = p @ t)"
proof
  assume "HasPrefix s p"
  then have "s = p @ drop (length p) s"
    by (metis HasPrefix_def append_take_drop_id)
  then show "\<exists>t. s = p @ t" ..
qed (auto simp: HasPrefix_def)

lemma HasSuffix_iff: "HasSuffix s p \<longleftrightarrow> (\<exists>t. s = t @ p)"
proof
  assume "HasSuffix s p"
  then have "s = take (length s - length p) s @ p"
    by (metis HasSuffix_def append_take_drop_id)
  then show "\<exists>t. s = t @ p" ..
qed (auto simp: HasSuffix_def)

definition upper_char :: "char \<Rightarrow> char" where
  "upper_char c = (let n = of_char c :: nat in if 97 \<le> n \<and> n \<le> 122 then char_of (n - 32) else c)"

definition lower_char :: "char \<Rightarrow> char" where
  "lower_char c = (let n = of_char c :: nat in if 65 \<le> n \<and> n \<le> 90 then char_of (n + 32) else c)"

definition ToUpper :: "string \<Rightarrow> string" where
  "ToUpper s = map upper_char s"

definition ToLower :: "string \<Rightarrow> string" where
  "ToLower s = map lower_char s"

lemma ToUpper_Nil_iff [simp]: "ToUpper s = [] \<longleftrightarrow> s = []"
  by (simp add: ToUpper_def)

lemma upper_char_idem [simp]: "upper_char (upper_char c) = upper_char c"
  by (auto simp: upper_char_def Let_def)

lemma ToUpper_idem [simp]: "ToUpper (ToUpper s) = ToUpper s"
  by (simp add: ToUpper_def)

section \<open>Decimal numbers\<close>

text \<open>\<open>%d\<close> of \<open>fmt.Sprintf\<close> and \<open>strconv.Itoa\<close>.\<close>

definition digit_char :: "nat \<Rightarrow> char" where
  "digit_char d = char_of (48 + d)"

fun nat_digits :: "nat \<Rightarrow> string" where
  "nat_digits n = (if n < 10 then [digit_char n] else nat_digits (n div 10) @ [digit_char (n mod 10)])"

declare nat_digits.simps [simp del]

definition itoa :: "int \<Rightarrow> string" where
  "itoa k = (if k < 0 then CHR ''-'' # nat_digits (nat (- k)) else nat_digits (nat k))"

definition digit_val :: "char \<Rightarrow> nat" where
  "digit_val c = of_char c - 48"

definition is_digit :: "char \<Rightarrow> bool" where
  "is_digit c \<longleftrightarrow> 48 \<le> (of_char c :: nat) \<and> (of_char c :: nat) \<le> 57"

definition digits_val :: "string \<Rightarrow> nat" where
  "digits_val s = foldl (\<lambda>acc c. 10 * acc + digit_val c) 0 s"

lemma is_digit_digit_char [simp]: "d < 10 \<Longrightarrow> is_digit (digit_char d)"
  by (simp add: is_digit_def digit_char_def)

lemma digit_val_digit_char [simp]: "d < 10 \<Longrightarrow> digit_val (digit_char d) = d"
  by (simp add: digit_val_def digit_char_def)

lemma digits_val_snoc [simp]: "digits_val (s @ [c]) = 10 * digits_val s + digit_val c"
  by (simp add: digits_val_def)

lemma digits_val_single [simp]: "digits_val [c] = digit_val c"
  by (simp add: digits_val_def)

lemma nat_digits_nonempty [simp]: "nat_digits n \<noteq> []"
  by (subst nat_digits.simps) simp

lemma nat_digits_all: "list_all is_digit (nat_digits n)"
  by (induction n rule: nat_digits.induct) (subst nat_digits.simps, simp)

lemma digits_val_nat_digits [simp]: "digits_val (nat_digits n) = n"
proof (induction n rule: nat_digits.induct)
  case (1 n)
  show ?case
  proof (cases "n < 10")
    case True
    then show ?thesis by (simp add: nat_digits.simps [of n])
  next
    case False
    with "1.IH" have "digits_val (nat_digits (n div 10)) = n div 10" by simp
    with False show ?thesis by (simp add: nat_digits.simps [of n])
  qed
qed

lemma nat_digits_inj [simp]: "nat_digits m = nat_digits n \<longleftrightarrow> m = n"
  by (metis digits_val_nat_digits)

lemma digit_not_minus: "is_digit c \<Longrightarrow> c \<noteq> CHR ''-''"
  by (auto simp: is_digit_def)

lemma digit_not_colon: "is_digit c \<Longrightarrow> c \<noteq> CHR '':''"
  by (auto simp: is_digit_def)

lemma itoa_nonempty [simp]: "itoa k \<noteq> []"
  by (simp add: itoa_def)

lemma nat_digits_digit: "c \<in> set (nat_digits n) \<Longrightarrow> is_digit c"
  using nat_digits_all [of n] by (simp add: list_all_iff)

lemma nat_digits_not_minus: "nat_digits n \<noteq> CHR ''-'' # s"
proof
  assume "nat_digits n = CHR ''-'' # s"
  then have "is_digit CHR ''-''" by (intro nat_digits_digit [of _ n]) simp
  then show False by (simp add: is_digit_def)
qed

lemma itoa_inj [simp]: "itoa j = itoa k \<longleftrightarrow> j = k"
  using nat_digits_not_minus [of "nat j"] nat_digits_not_minus [of "nat k"]
  by (auto simp: itoa_def split: if_splits) metis+

lemma colon_notin_itoa: "CHR '':'' \<notin> set (itoa k)"
  using nat_digits_digit [of "CHR '':''"] by (auto simp: itoa_def is_digit_def)

lemma minus_notin_itoa_nat: "CHR ''-'' \<notin> set (itoa (int n))"
  using nat_digits_digit [of "CHR ''-''"] by (auto simp: itoa_def is_digit_def)

text \<open>A separator that does not occur in the last part makes a joined key injective.\<close>

lemma join_last_inj:
  assumes "s @ c # x = t @ c # y" "c \<notin> set x" "c \<notin> set y"
  shows "s = t \<and> x = y"
proof -
  have split: "takeWhile (\<lambda>d. d \<noteq> c) (rev z @ c # w) = rev z" if "c \<notin> set z" for z w
    using that by (subst takeWhile_append2) auto
  from assms(1) have "rev x @ c # rev s = rev y @ c # rev t"
    by (metis append.assoc append_Cons append_Nil rev.simps(2) rev_append)
  with split [of x "rev s"] split [of y "rev t"] assms(2,3) have "x = y" by simp
  with assms(1) show ?thesis by simp
qed

end
