(* ===== verification/Metrics.thy ===== *)
theory Metrics
  imports Go_Prelude
begin

text \<open>
  \<open>pkg/proxy/metrics.go\<close>: the Prometheus series of the proxy and the helper functions that
  update them. The Prometheus client is a library the sources only call, so a helper is
  modelled by the calls it makes, in order; a component keeps the trace of all calls made so
  far, and a property about a metric is a property of that trace. The observed durations,
  \<open>float64\<close> seconds in the source, are kept as the \<open>time.Duration\<close> they are computed from.
\<close>

section \<open>The series and the calls on them\<close>

datatype metric =
    sidecarConnectionsTotal | sidecarConnectionsActive | sidecarBytesTotal
  | sidecarRequestDuration | sidecarTLSHandshakes | sidecarConnectionsByTLS
  | httpRequestsTotal | httpRequestDuration | httpRequestsInFlight
  | backendHealthStatus | backendActiveConnections
  | circuitBreakerState | circuitBreakerFailures
  | retryAttemptsTotal

text \<open>\<open>Inc m ls\<close> stands for \<open>m.WithLabelValues(ls...).Inc()\<close>, and so on.\<close>

datatype metric_call =
    Inc metric "string list"
  | Dec metric "string list"
  | Add metric "string list" int64
  | SetTo metric "string list" int
  | Observe metric "string list" duration

type_synonym metric_trace = "metric_call list"

datatype State = Closed | HalfOpen | Open

fun state_code :: "State \<Rightarrow> int" where
  "state_code Closed = 0"
| "state_code HalfOpen = 1"
| "state_code Open = 2"

section \<open>The helper functions\<close>

definition RecordRequest :: "string \<Rightarrow> string \<Rightarrow> string \<Rightarrow> duration \<Rightarrow> metric_trace" where
  "RecordRequest backend meth status d =
     [Inc httpRequestsTotal [backend, meth, status], Observe httpRequestDuration [backend, meth] d]"

definition RecordRequestStart :: metric_trace where
  "RecordRequestStart = [Inc httpRequestsInFlight []]"

definition RecordRequestEnd :: metric_trace where
  "RecordRequestEnd = [Dec httpRequestsInFlight []]"

definition UpdateBackendHealth :: "string \<Rightarrow> bool \<Rightarrow> metric_trace" where
  "UpdateBackendHealth backend healthy =
     (if healthy then [SetTo backendHealthStatus [backend] 1]
      else [SetTo backendHealthStatus [backend] 0])"

definition UpdateBackendConnections :: "string \<Rightarrow> int32 \<Rightarrow> metric_trace" where
  "UpdateBackendConnections backend n = [SetTo backendActiveConnections [backend] (sint n)]"

definition UpdateCircuitBreakerState :: "string \<Rightarrow> State \<Rightarrow> metric_trace" where
  "UpdateCircuitBreakerState backend st = [SetTo circuitBreakerState [backend] (state_code st)]"

definition RecordBackendFailure :: "string \<Rightarrow> metric_trace" where
  "RecordBackendFailure backend = [Inc circuitBreakerFailures [backend]]"

definition RecordRetryAttempt :: "string \<Rightarrow> metric_trace" where
  "RecordRetryAttempt backend = [Inc retryAttemptsTotal [backend]]"

definition RecordSidecarConnection :: "string \<Rightarrow> string \<Rightarrow> metric_trace" where
  "RecordSidecarConnection dir protocol = [Inc sidecarConnectionsTotal [dir, protocol]]"

definition RecordSidecarConnectionStart :: "string \<Rightarrow> metric_trace" where
  "RecordSidecarConnectionStart dir = [Inc sidecarConnectionsActive [dir]]"

definition RecordSidecarConnectionEnd :: "string \<Rightarrow> metric_trace" where
  "RecordSidecarConnectionEnd dir = [Dec sidecarConnectionsActive [dir]]"

definition RecordSidecarBytes :: "string \<Rightarrow> int64 \<Rightarrow> metric_trace" where
  "RecordSidecarBytes dir n = [Add sidecarBytesTotal [dir] n]"

definition RecordSidecarDuration :: "string \<Rightarrow> string \<Rightarrow> duration \<Rightarrow> metric_trace" where
  "RecordSidecarDuration dir status d = [Observe sidecarRequestDuration [dir, status] d]"

definition RecordTLSHandshake :: "string \<Rightarrow> metric_trace" where
  "RecordTLSHandshake result = [Inc sidecarTLSHandshakes [result]]"

definition RecordConnectionByTLS :: "string \<Rightarrow> metric_trace" where
  "RecordConnectionByTLS tlsMode = [Inc sidecarConnectionsByTLS [tlsMode]]"

lemmas metric_helper_defs [go_defs] =
  RecordRequest_def RecordRequestStart_def RecordRequestEnd_def UpdateBackendHealth_def
  UpdateBackendConnections_def UpdateCircuitBreakerState_def RecordBackendFailure_def
  RecordRetryAttempt_def RecordSidecarConnection_def RecordSidecarConnectionStart_def
  RecordSidecarConnectionEnd_def RecordSidecarBytes_def RecordSidecarDuration_def
  RecordTLSHandshake_def RecordConnectionByTLS_def

section \<open>Declarations and typing\<close>

text \<open>
  How each series is declared: its kind and the names of its labels. The client library panics
  when \<open>WithLabelValues\<close> gets another number of values, and when a counter is decreased; a
  call is well typed if neither happens and the method exists on the kind.
\<close>

datatype metric_kind = CounterVec | GaugeVec | HistogramVec

fun metric_decl :: "metric \<Rightarrow> metric_kind \<times> string list" where
  "metric_decl sidecarConnectionsTotal = (CounterVec, [''direction'', ''protocol''])"
| "metric_decl sidecarConnectionsActive = (GaugeVec, [''direction''])"
| "metric_decl sidecarBytesTotal = (CounterVec, [''direction''])"
| "metric_decl sidecarRequestDuration = (HistogramVec, [''direction'', ''status''])"
| "metric_decl sidecarTLSHandshakes = (CounterVec, [''result''])"
| "metric_decl sidecarConnectionsByTLS = (CounterVec, [''tls_mode''])"
| "metric_decl httpRequestsTotal = (CounterVec, [''backend'', ''method'', ''status''])"
| "metric_decl httpRequestDuration = (HistogramVec, [''backend'', ''method''])"
| "metric_decl httpRequestsInFlight = (GaugeVec, [])"
| "metric_decl backendHealthStatus = (GaugeVec, [''backend''])"
| "metric_decl backendActiveConnections = (GaugeVec, [''backend''])"
| "metric_decl circuitBreakerState = (GaugeVec, [''backend''])"
| "metric_decl circuitBreakerFailures = (CounterVec, [''backend''])"
| "metric_decl retryAttemptsTotal = (CounterVec, [''backend''])"

definition labelled :: "metric \<Rightarrow> string list \<Rightarrow> metric_kind set \<Rightarrow> bool" where
  "labelled m ls kinds \<longleftrightarrow> fst (metric_decl m) \<in> kinds \<and> length ls = length (snd (metric_decl m))"

fun well_typed :: "metric_call \<Rightarrow> bool" where
  "well_typed (Inc m ls) = labelled m ls {CounterVec, GaugeVec}"
| "well_typed (Dec m ls) = labelled m ls {GaugeVec}"
| "well_typed (Add m ls n) = (labelled m ls {CounterVec, GaugeVec} \<and> (fst (metric_decl m) = CounterVec \<longrightarrow> 0 \<le>s n))"
| "well_typed (SetTo m ls v) = labelled m ls {GaugeVec}"
| "well_typed (Observe m ls d) = labelled m ls {HistogramVec}"

named_theorems metric_typing

lemma helpers_typed [metric_typing]:
  "list_all well_typed (RecordRequest b meth st d)" "list_all well_typed RecordRequestStart"
  "list_all well_typed RecordRequestEnd" "list_all well_typed (UpdateBackendHealth b h)"
  "list_all well_typed (UpdateBackendConnections b n)" "list_all well_typed (UpdateCircuitBreakerState b s)"
  "list_all well_typed (RecordBackendFailure b)" "list_all well_typed (RecordRetryAttempt b)"
  "list_all well_typed (RecordSidecarConnection x y)" "list_all well_typed (RecordSidecarConnectionStart x)"
  "list_all well_typed (RecordSidecarConnectionEnd x)" "list_all well_typed (RecordSidecarDuration x y d)"
  "list_all well_typed (RecordTLSHandshake x)" "list_all well_typed (RecordConnectionByTLS x)"
  by (simp_all add: metric_helper_defs labelled_def)

text \<open>The one helper that needs care: the byte counter must not be given a negative number.\<close>

lemma bytes_typed: "list_all well_typed (RecordSidecarBytes x n) \<longleftrightarrow> 0 \<le>s n"
  by (simp add: RecordSidecarBytes_def labelled_def)

section \<open>Reading a trace\<close>

text \<open>The value a gauge series was last set to, and the number of increments of a series.\<close>

definition last_set :: "metric \<Rightarrow> string list \<Rightarrow> metric_trace \<Rightarrow> int option" where
  "last_set m ls tr =
     foldl (\<lambda>v c. case c of SetTo m' ls' x \<Rightarrow> if m' = m \<and> ls' = ls then Some x else v | _ \<Rightarrow> v)
       None tr"

definition incs :: "metric \<Rightarrow> string list \<Rightarrow> metric_trace \<Rightarrow> nat" where
  "incs m ls tr = count_list tr (Inc m ls)"

definition decs :: "metric \<Rightarrow> string list \<Rightarrow> metric_trace \<Rightarrow> nat" where
  "decs m ls tr = count_list tr (Dec m ls)"

lemma incs_Nil [simp]: "incs m ls [] = 0"
  by (simp add: incs_def)

lemma incs_Cons [simp]: "incs m ls (c # tr) = (if c = Inc m ls then 1 else 0) + incs m ls tr"
  by (simp add: incs_def)

lemma incs_append [simp]: "incs m ls (tr @ tr') = incs m ls tr + incs m ls tr'"
  by (simp add: incs_def)

lemma decs_Nil [simp]: "decs m ls [] = 0"
  by (simp add: decs_def)

lemma decs_Cons [simp]: "decs m ls (c # tr) = (if c = Dec m ls then 1 else 0) + decs m ls tr"
  by (simp add: decs_def)

lemma decs_append [simp]: "decs m ls (tr @ tr') = decs m ls tr + decs m ls tr'"
  by (simp add: decs_def)

end
