(* ===== verification/Backend_Circuit.thy ===== *)
theory Backend_Circuit
  imports Metrics
begin

text \<open>
  \<open>pkg/proxy/backend.go\<close>, first half: one backend with its health flag, its count of active
  requests and its circuit breaker. Each method holds the backend's mutex (or is one atomic
  instruction), so it is one function from the old backend to the new one; a method that
  records metrics also returns the calls it makes.
\<close>

section \<open>State and operations\<close>

record URL =
  Scheme :: string
  Host :: string
  UPath :: string

record Backend =
  Name :: string
  TargetUrl :: URL
  Healthy :: bool
  ActiveRequest :: int32
  MaxRequest :: int64
  FailureCount :: int64
  resetTimeOut :: duration
  backofDuration :: duration
  circ_state :: State
  is_closed :: bool

definition IsHealthy :: "Backend \<Rightarrow> bool" where
  "IsHealthy b = Healthy b"

definition GetActiveRequests :: "Backend \<Rightarrow> int32" where
  "GetActiveRequests b = ActiveRequest b"

definition IncrementActiveRequests :: "Backend \<Rightarrow> Backend" where
  "IncrementActiveRequests b = b\<lparr>ActiveRequest := ActiveRequest b + 1\<rparr>"

definition DecrementActiveRequests :: "Backend \<Rightarrow> Backend" where
  "DecrementActiveRequests b = b\<lparr>ActiveRequest := ActiveRequest b + (- 1)\<rparr>"

definition UpdateStatus :: "Backend \<Rightarrow> bool \<Rightarrow> duration \<Rightarrow> Backend \<times> metric_trace" where
  "UpdateStatus b0 healthy checkInterval =
     (let b1 = b0\<lparr>Healthy := healthy\<rparr>;
          m1 = UpdateBackendHealth (Name b1) healthy;
          (b2, m2) =
            (if \<not> healthy
             then (b1\<lparr>FailureCount := FailureCount b1 + 1\<rparr>, RecordBackendFailure (Name b1))
             else (b1\<lparr>FailureCount := 0, backofDuration := 0, circ_state := Closed,
                      resetTimeOut := 0\<rparr>, []))
      in if 5 \<le>s FailureCount b2
         then let b3 =
                (if circ_state b2 = HalfOpen
                 then b2\<lparr>resetTimeOut := backofDuration b2 + 3 * Second + checkInterval * 2,
                         circ_state := Open\<rparr>
                 else b2\<lparr>circ_state := Open,
                         resetTimeOut := resetTimeOut b2 + 3 * Second + checkInterval\<rparr>);
              b4 = (if backofDuration b3 \<noteq> 0
                    then b3\<lparr>backofDuration := backofDuration b3 * 2\<rparr>
                    else b3\<lparr>backofDuration := 3 * Second\<rparr>)
              in (b4, m1 @ m2 @ UpdateCircuitBreakerState (Name b4) (circ_state b4))
         else (b2, m1 @ m2))"

definition GetCircuitState :: "Backend \<Rightarrow> duration \<Rightarrow> (bool \<times> State) \<times> Backend" where
  "GetCircuitState b checkInterval =
     (if circ_state b = Open
      then if checkInterval \<le>s resetTimeOut b
           then ((False, Open), b\<lparr>resetTimeOut := resetTimeOut b - checkInterval\<rparr>)
           else ((True, HalfOpen), b\<lparr>circ_state := HalfOpen, FailureCount := FailureCount b - 1\<rparr>)
      else let b' = (if circ_state b = HalfOpen then b\<lparr>FailureCount := FailureCount b - 1\<rparr> else b)
           in ((True, circ_state b'), b'))"

definition Close :: "Backend \<Rightarrow> Backend" where
  "Close b = b\<lparr>is_closed := True\<rparr>"

lemmas backend_op_defs [go_defs] =
  IsHealthy_def GetActiveRequests_def IncrementActiveRequests_def DecrementActiveRequests_def
  UpdateStatus_def GetCircuitState_def Close_def

section \<open>What the operations leave alone\<close>

lemma UpdateStatus_frame [simp, go_frame]:
  "Name (fst (UpdateStatus b h ci)) = Name b"
  "TargetUrl (fst (UpdateStatus b h ci)) = TargetUrl b"
  "ActiveRequest (fst (UpdateStatus b h ci)) = ActiveRequest b"
  "is_closed (fst (UpdateStatus b h ci)) = is_closed b"
  "Healthy (fst (UpdateStatus b h ci)) = h"
  by (simp_all add: UpdateStatus_def Let_def)

lemma GetCircuitState_frame [simp, go_frame]:
  "Name (snd (GetCircuitState b ci)) = Name b"
  "TargetUrl (snd (GetCircuitState b ci)) = TargetUrl b"
  "ActiveRequest (snd (GetCircuitState b ci)) = ActiveRequest b"
  "is_closed (snd (GetCircuitState b ci)) = is_closed b"
  "Healthy (snd (GetCircuitState b ci)) = Healthy b"
  by (simp_all add: GetCircuitState_def Let_def)

lemma GetCircuitState_closed [simp]:
  "circ_state b = Closed \<Longrightarrow> GetCircuitState b ci = ((True, Closed), b)"
  by (simp add: GetCircuitState_def)

lemma active_requests_frame [simp, go_frame]:
  "Name (IncrementActiveRequests b) = Name b"
  "Healthy (IncrementActiveRequests b) = Healthy b"
  "circ_state (IncrementActiveRequests b) = circ_state b"
  "is_closed (IncrementActiveRequests b) = is_closed b"
  "TargetUrl (IncrementActiveRequests b) = TargetUrl b"
  "Name (DecrementActiveRequests b) = Name b"
  "Healthy (DecrementActiveRequests b) = Healthy b"
  "circ_state (DecrementActiveRequests b) = circ_state b"
  "is_closed (DecrementActiveRequests b) = is_closed b"
  "TargetUrl (DecrementActiveRequests b) = TargetUrl b"
  by (simp_all add: IncrementActiveRequests_def DecrementActiveRequests_def)

lemma Decrement_Increment [simp]:
  "DecrementActiveRequests (IncrementActiveRequests b) = b"
  by (simp add: IncrementActiveRequests_def DecrementActiveRequests_def)

lemma active_count [simp]:
  "ActiveRequest (IncrementActiveRequests b) = ActiveRequest b + 1"
  "ActiveRequest (DecrementActiveRequests b) = ActiveRequest b - 1"
  by (simp_all add: IncrementActiveRequests_def DecrementActiveRequests_def)

lemma UpdateStatus_healthy:
  "fst (UpdateStatus b True ci) =
     b\<lparr>Healthy := True, FailureCount := 0, backofDuration := 0, circ_state := Closed,
       resetTimeOut := 0\<rparr>"
  by (simp add: UpdateStatus_def word_sle_eq)

lemma UpdateStatus_calls:
  "snd (UpdateStatus b h ci) =
     UpdateBackendHealth (Name b) h @
     (if h then []
      else RecordBackendFailure (Name b) @
        (if 5 \<le>s FailureCount b + 1 then UpdateCircuitBreakerState (Name b) Open else []))"
  by (simp add: UpdateStatus_def Let_def word_sle_eq)

section \<open>The abstract circuit breaker\<close>

text \<open>
  What the three states promise, without counters and timers: a success closes the circuit; a
  failure leaves the state or opens the circuit; a query moves an open circuit at most to
  half-open and changes nothing else.
\<close>

datatype circuit_event = Success | Failure | Query

inductive circuit_spec :: "State \<Rightarrow> circuit_event \<Rightarrow> State \<Rightarrow> bool" where
  spec_success: "circuit_spec st Success Closed"
| spec_failure_stay: "circuit_spec st Failure st"
| spec_failure_open: "circuit_spec st Failure Open"
| spec_query_stay: "circuit_spec st Query st"
| spec_query_half: "circuit_spec Open Query HalfOpen"

inductive_simps circuit_spec_simps [simp]:
  "circuit_spec st Success st'" "circuit_spec st Failure st'" "circuit_spec st Query st'"

text \<open>The operations of a backend that any goroutine may run at any moment.\<close>

datatype backend_op =
    OpUpdate bool duration
  | OpQuery duration
  | OpIncrement
  | OpDecrement
  | OpClose

fun run_op :: "backend_op \<Rightarrow> Backend \<Rightarrow> Backend" where
  "run_op (OpUpdate h ci) b = fst (UpdateStatus b h ci)"
| "run_op (OpQuery ci) b = snd (GetCircuitState b ci)"
| "run_op OpIncrement b = IncrementActiveRequests b"
| "run_op OpDecrement b = DecrementActiveRequests b"
| "run_op OpClose b = Close b"

fun op_event :: "backend_op \<Rightarrow> circuit_event" where
  "op_event (OpUpdate h ci) = (if h then Success else Failure)"
| "op_event _ = Query"

lemma Close_frame [simp, go_frame]:
  "Name (Close b) = Name b" "Healthy (Close b) = Healthy b"
  "circ_state (Close b) = circ_state b" "ActiveRequest (Close b) = ActiveRequest b"
  "is_closed (Close b)"
  by (simp_all add: Close_def)

lemma UpdateStatus_unhealthy_state:
  "circ_state (fst (UpdateStatus b False ci)) =
     (if 5 \<le>s FailureCount b + 1 then Open else circ_state b)"
  by (simp add: UpdateStatus_def Let_def)

lemma GetCircuitState_state:
  "circ_state (snd (GetCircuitState b ci)) =
     (if circ_state b = Open \<and> \<not> ci \<le>s resetTimeOut b then HalfOpen else circ_state b)"
  by (simp add: GetCircuitState_def Let_def)


section \<open>Reachable backends\<close>

text \<open>
  A backend as \<open>CreateBackends\<close> makes it: healthy, every other field zero. The reachable
  backends are those that any sequence of operations, from any goroutines, can produce.
\<close>

definition fresh_backend :: "string \<Rightarrow> URL \<Rightarrow> Backend" where
  "fresh_backend name u =
     \<lparr>Name = name, TargetUrl = u, Healthy = True, ActiveRequest = 0, MaxRequest = 0,
      FailureCount = 0, resetTimeOut = 0, backofDuration = 0, circ_state = Closed,
      is_closed = False\<rparr>"

lemma fresh_backend_simps [simp]:
  "Name (fresh_backend n u) = n" "TargetUrl (fresh_backend n u) = u"
  "Healthy (fresh_backend n u)" "ActiveRequest (fresh_backend n u) = 0"
  "FailureCount (fresh_backend n u) = 0" "circ_state (fresh_backend n u) = Closed"
  "backofDuration (fresh_backend n u) = 0" "resetTimeOut (fresh_backend n u) = 0"
  "\<not> is_closed (fresh_backend n u)"
  by (simp_all add: fresh_backend_def)

inductive backend_reach :: "Backend \<Rightarrow> bool" where
  reach_fresh: "backend_reach (fresh_backend n u)"
| reach_op: "backend_reach b \<Longrightarrow> backend_reach (run_op op b)"

definition circuit_inv :: "Backend \<Rightarrow> bool" where
  "circuit_inv b \<longleftrightarrow>
     (Healthy b \<longrightarrow> circ_state b = Closed \<and> FailureCount b = 0 \<and> resetTimeOut b = 0 \<and>
        backofDuration b = 0)"

lemma circuit_inv_fresh [simp, go_inv]: "circuit_inv (fresh_backend n u)"
  by (simp add: circuit_inv_def)

lemma circuit_inv_UpdateStatus [simp, go_inv]: "circuit_inv (fst (UpdateStatus b h ci))"
  by (cases h) (simp_all add: circuit_inv_def UpdateStatus_healthy)

lemma circuit_inv_GetCircuitState [go_inv]:
  "circuit_inv b \<Longrightarrow> circuit_inv (snd (GetCircuitState b ci))"
  by (auto simp: circuit_inv_def GetCircuitState_def Let_def)

lemma circuit_inv_active [go_inv]:
  "circuit_inv b \<Longrightarrow> circuit_inv (IncrementActiveRequests b)"
  "circuit_inv b \<Longrightarrow> circuit_inv (DecrementActiveRequests b)"
  "circuit_inv b \<Longrightarrow> circuit_inv (Close b)"
  by (simp_all add: circuit_inv_def go_defs)

lemma circuit_inv_run_op: "circuit_inv b \<Longrightarrow> circuit_inv (run_op op b)"
  by (cases op) (auto intro: go_inv)

lemma circuit_inv_closed: "circuit_inv b \<Longrightarrow> Healthy b \<Longrightarrow> circ_state b = Closed"
  by (simp add: circuit_inv_def)

text \<open>
  C1. In every reachable backend the health flag and the breaker agree: a backend that is
  marked healthy has a closed circuit, a failure count of zero and both timers at zero; so
  the circuit query of the load balancer answers \<open>true\<close> for it and changes nothing.
\<close>

theorem healthy_backend_is_closed:
  assumes "backend_reach b" and "Healthy b"
  shows "circ_state b = Closed \<and> FailureCount b = 0 \<and> resetTimeOut b = 0 \<and>
    backofDuration b = 0 \<and> GetCircuitState b ci = ((True, Closed), b)"
proof -
  from assms(1) have "circuit_inv b"
    by (induction rule: backend_reach.induct) (auto intro: circuit_inv_run_op)
  with assms(2) show ?thesis by (simp add: circuit_inv_def)
qed

definition example_url :: URL where
  "example_url = \<lparr>Scheme = ''http'', Host = ''10.0.0.1:80'', UPath = []\<rparr>"

theorem healthy_backend_is_closed_witness:
  "circ_state (run_op (OpUpdate True 10) (run_op (OpUpdate False 10)
     (fresh_backend ''a-0'' example_url))) = Closed"
proof -
  let ?b = "run_op (OpUpdate True 10) (run_op (OpUpdate False 10)
     (fresh_backend ''a-0'' example_url))"
  have "backend_reach ?b" by (intro backend_reach.intros)
  moreover have "Healthy ?b" by simp
  ultimately show ?thesis using healthy_backend_is_closed [of ?b] by blast
qed

section \<open>Runs of failures and of queries\<close>

fun fails :: "nat \<Rightarrow> duration \<Rightarrow> Backend \<Rightarrow> Backend" where
  "fails 0 ci b = b"
| "fails (Suc n) ci b = fst (UpdateStatus (fails n ci b) False ci)"

fun queries :: "nat \<Rightarrow> duration \<Rightarrow> Backend \<Rightarrow> Backend" where
  "queries 0 ci b = b"
| "queries (Suc n) ci b = queries n ci (snd (GetCircuitState b ci))"

lemma UpdateStatus_unhealthy_fields:
  "FailureCount (fst (UpdateStatus b False ci)) = FailureCount b + 1"
  "backofDuration (fst (UpdateStatus b False ci)) =
     (if 5 \<le>s FailureCount b + 1
      then if backofDuration b \<noteq> 0 then backofDuration b * 2 else 3 * Second
      else backofDuration b)"
  by (simp_all add: UpdateStatus_def Let_def)

lemma fails_Name: "Name (fails n ci b) = Name b"
  by (induction n) simp_all

lemma fails_count: "FailureCount (fails n ci b) = FailureCount b + of_nat n"
  by (induction n) (simp_all add: UpdateStatus_unhealthy_fields)

lemma five_sle_of_nat: "int n < 9223372036854775808 \<Longrightarrow> (5 :: int64) \<le>s of_nat n \<longleftrightarrow> 5 \<le> n"
  by (simp add: word_sle_eq sint_of_nat64)

lemma fails_state:
  assumes "FailureCount b = 0" "circ_state b = Closed" "int n < 9223372036854775808"
  shows "circ_state (fails n ci b) = (if 5 \<le> n then Open else Closed)"
  using assms(3)
proof (induction n)
  case (Suc n)
  then have "(5 :: int64) \<le>s of_nat (Suc n) \<longleftrightarrow> 5 \<le> Suc n" by (intro five_sle_of_nat)
  then show ?case
    using Suc assms(1) by (simp add: UpdateStatus_unhealthy_state fails_count add.commute)
qed (simp add: assms)

lemma backoff_word_nonzero:
  "k < 32 \<Longrightarrow> sint (3 * Second * 2 ^ k :: duration) = 3000000000 * 2 ^ k"
proof -
  assume "k < 32"
  then have "(2::int) ^ k \<le> 2 ^ 31" by (intro power_increasing) auto
  then have "(3000000000 * 2 ^ k :: int) < 9223372036854775808" by simp
  moreover have "(0::int) \<le> 3000000000 * 2 ^ k" by simp
  ultimately have "sint (word_of_int (3000000000 * 2 ^ k) :: duration) = 3000000000 * 2 ^ k"
    by (intro sint_of_int64) linarith+
  then show ?thesis by (simp add: Second_def)
qed

lemma fails_backoff:
  assumes "FailureCount b = 0" "backofDuration b = 0" "n \<le> 36"
  shows "backofDuration (fails n ci b) = (if 5 \<le> n then 3 * Second * 2 ^ (n - 5) else 0)"
  using assms(3)
proof (induction n)
  case (Suc n)
  then have thr: "(5 :: int64) \<le>s of_nat (Suc n) \<longleftrightarrow> 5 \<le> Suc n" by (intro five_sle_of_nat) simp
  have nz: "5 \<le> n \<Longrightarrow> (3 * Second * 2 ^ (n - 5) :: duration) \<noteq> 0"
    using backoff_word_nonzero [of "n - 5"] Suc.prems by (cases "n - 5 < 32") auto
  have "5 \<le> n \<Longrightarrow> (2::duration) ^ (n - 4) = 2 ^ (n - 5) * 2"
    by (metis Suc_diff_le diff_Suc_Suc eval_nat_numeral(3) numeral_nat(3) power_Suc2)
  then show ?case
    using Suc thr nz assms(1)
    by (auto simp: UpdateStatus_unhealthy_fields fails_count add.commute not_less_eq_eq)
qed (simp add: assms)



lemma queries_open:
  assumes "circ_state b = Open" "0 < sint ci" "int k * sint ci \<le> sint (resetTimeOut b)"
  shows "circ_state (queries k ci b) = Open \<and>
    sint (resetTimeOut (queries k ci b)) = sint (resetTimeOut b) - int k * sint ci"
  using assms
proof (induction k arbitrary: b)
  case (Suc k)
  from Suc.prems have ge: "sint ci \<le> sint (resetTimeOut b)"
    by (smt (verit) mult_le_cancel_right1 of_nat_0_le_iff of_nat_Suc)
  have lt: "sint (resetTimeOut b) < 9223372036854775808" using sint_lt [of "resetTimeOut b"] by simp
  let ?b = "snd (GetCircuitState b ci)"
  have b: "circ_state ?b = Open" "resetTimeOut ?b = resetTimeOut b - ci"
    using Suc.prems ge by (simp_all add: GetCircuitState_def word_sle_eq)
  have r: "sint (resetTimeOut ?b) = sint (resetTimeOut b) - sint ci"
    using b(2) ge lt Suc.prems(2) by (simp add: sint_diff64)
  have "int k * sint ci \<le> sint (resetTimeOut ?b)"
    using Suc.prems(3) r by (simp add: algebra_simps)
  from Suc.IH [OF b(1) Suc.prems(2) this] show ?case by (simp add: r algebra_simps)
qed simp

text \<open>
  C4. An open circuit does not stay open under repeated queries: with a reset timeout \<open>r \<ge> 0\<close>
  and a positive interval \<open>ci\<close>, exactly \<open>r div ci\<close> queries are refused, and the next one
  moves the circuit to half-open and lets a check through.
\<close>

theorem open_circuit_times_out:
  assumes "circ_state b = Open" "0 < sint ci" "0 \<le> sint (resetTimeOut b)"
    and "k = nat (sint (resetTimeOut b) div sint ci)"
  shows "(\<forall>i<k. fst (GetCircuitState (queries i ci b) ci) = (False, Open)) \<and>
    fst (GetCircuitState (queries k ci b) ci) = (True, HalfOpen)"
proof -
  let ?r = "sint (resetTimeOut b)"
  have k: "int k = ?r div sint ci" using assms by (simp add: pos_imp_zdiv_nonneg_iff)
  have dm: "?r = int k * sint ci + ?r mod sint ci" "0 \<le> ?r mod sint ci" "?r mod sint ci < sint ci"
    using assms(2) k by (simp_all add: mult.commute)
  have "fst (GetCircuitState (queries i ci b) ci) = (False, Open)" if "i < k" for i
  proof -
    have "int (Suc i) * sint ci \<le> int k * sint ci"
      using that assms(2) by (intro mult_right_mono) auto
    then have "int i * sint ci + sint ci \<le> ?r" using dm by (simp add: algebra_simps)
    then show ?thesis
      using queries_open [OF assms(1,2), of i] assms(2)
      by (simp add: GetCircuitState_def word_sle_eq)
  qed
  moreover have "fst (GetCircuitState (queries k ci b) ci) = (True, HalfOpen)"
    using queries_open [OF assms(1,2), of k] dm by (simp add: GetCircuitState_def word_sle_eq)
  ultimately show ?thesis by blast
qed

theorem open_circuit_times_out_witness:
  "fst (GetCircuitState (queries 2 10 ((fresh_backend ''a-0'' example_url)
      \<lparr>circ_state := Open, resetTimeOut := 25\<rparr>)) 10) = (True, HalfOpen)"
  by (rule open_circuit_times_out [THEN conjunct2]) simp_all

section \<open>Half-open circuits\<close>

text \<open>A round of probing a half-open backend: some circuit queries, then a failed check.\<close>

definition failing_round :: "nat \<Rightarrow> duration \<Rightarrow> Backend \<Rightarrow> Backend" where
  "failing_round q ci b = fst (UpdateStatus (queries q ci b) False ci)"

lemma queries_half_open:
  "circ_state b = HalfOpen \<Longrightarrow>
     circ_state (queries k ci b) = HalfOpen \<and>
     FailureCount (queries k ci b) = FailureCount b - of_nat k"
  by (induction k arbitrary: b) (simp_all add: GetCircuitState_def)

lemma failing_round_half_open:
  assumes "circ_state b = HalfOpen" "1 \<le> q"
    and "sint (FailureCount b) \<le> 3" "int q - 9000000000000000000 \<le> sint (FailureCount b)"
  shows "circ_state (failing_round q ci b) = HalfOpen"
    and "sint (FailureCount (failing_round q ci b)) = sint (FailureCount b) - int q + 1"
proof -
  have fc: "FailureCount (failing_round q ci b) = FailureCount b + word_of_int (1 - int q)"
    using queries_half_open [OF assms(1), of q ci]
    by (simp add: failing_round_def UpdateStatus_unhealthy_fields)
  have "sint (word_of_int (1 - int q) :: int64) = 1 - int q"
    using assms by (intro sint_of_int64) linarith+
  then have "sint (FailureCount b + word_of_int (1 - int q)) = sint (FailureCount b) + (1 - int q)"
    using assms by (subst sint_add64) linarith+
  then show n: "sint (FailureCount (failing_round q ci b)) = sint (FailureCount b) - int q + 1"
    by (simp add: fc)
  have "\<not> 5 \<le>s FailureCount (failing_round q ci b)"
    using n assms(2,3) by (simp add: word_sle_eq)
  then show "circ_state (failing_round q ci b) = HalfOpen"
    using queries_half_open [OF assms(1), of q ci]
    by (simp add: failing_round_def UpdateStatus_unhealthy_fields UpdateStatus_unhealthy_state)
qed

text \<open>
  Every circuit query of a half-open backend decrements its failure count, also when the
  query comes from the load balancer and not from the health checker. Once the count is at
  most three, any number of rounds of at least one query followed by a failed check leaves the
  circuit half-open: the failed probes never open it again.
\<close>

theorem half_open_never_reopens:
  assumes "circ_state b = HalfOpen" "sint (FailureCount b) \<le> 3" "list_all (\<lambda>q. 1 \<le> q) qs"
    and "int (sum_list qs) - 9000000000000000000 \<le> sint (FailureCount b)"
  shows "circ_state (fold (\<lambda>q. failing_round q ci) qs b) = HalfOpen"
  using assms
proof (induction qs arbitrary: b)
  case (Cons q qs)
  from Cons.prems have q: "1 \<le> q" "int q - 9000000000000000000 \<le> sint (FailureCount b)" by simp_all
  note r = failing_round_half_open [OF Cons.prems(1) q(1) Cons.prems(2) q(2), of ci]
  have "circ_state (fold (\<lambda>q. failing_round q ci) qs (failing_round q ci b)) = HalfOpen"
    using Cons.prems q r by (intro Cons.IH) simp_all
  then show ?case by simp
qed simp

theorem half_open_never_reopens_witness:
  "circ_state (fold (\<lambda>q. failing_round q 10) [1, 2, 1]
     (queries 2 10 ((fails 5 10 (fresh_backend ''a-0'' example_url))\<lparr>resetTimeOut := 0\<rparr>))) = HalfOpen"
proof -
  let ?b = "queries 2 10 ((fails 5 10 (fresh_backend ''a-0'' example_url))\<lparr>resetTimeOut := 0\<rparr>)"
  have "circ_state ?b = HalfOpen" "FailureCount ?b = 3" by code_simp+
  then show ?thesis using half_open_never_reopens [of ?b "[1, 2, 1]" 10] by simp
qed

section \<open>The circuit breaker gauge\<close>

fun op_calls :: "backend_op \<Rightarrow> Backend \<Rightarrow> metric_trace" where
  "op_calls (OpUpdate h ci) b = snd (UpdateStatus b h ci)"
| "op_calls _ b = []"

fun run_ops :: "backend_op list \<Rightarrow> Backend \<Rightarrow> Backend" where
  "run_ops [] b = b"
| "run_ops (op # ops) b = run_ops ops (run_op op b)"

fun ops_calls :: "backend_op list \<Rightarrow> Backend \<Rightarrow> metric_trace" where
  "ops_calls [] b = []"
| "ops_calls (op # ops) b = op_calls op b @ ops_calls ops (run_op op b)"

lemma UpdateStatus_gauge:
  "SetTo circuitBreakerState ls v \<in> set (snd (UpdateStatus b h ci)) \<Longrightarrow> v = 2"
  by (auto simp: UpdateStatus_def metric_helper_defs Let_def split: if_splits)

lemma ops_calls_gauge: "SetTo circuitBreakerState ls v \<in> set (ops_calls ops b) \<Longrightarrow> v = 2"
proof (induction ops arbitrary: b)
  case (Cons op ops)
  then show ?case by (cases op) (auto dest: UpdateStatus_gauge)
qed simp

lemma last_set_mem: "last_set m ls tr = Some v \<Longrightarrow> SetTo m ls v \<in> set tr"
  unfolding last_set_def
  by (induction tr rule: rev_induct) (auto split: metric_call.splits if_splits)

lemma last_set_append:
  "last_set m ls (tr @ tr') = (case last_set m ls tr' of None \<Rightarrow> last_set m ls tr | Some v \<Rightarrow> Some v)"
  unfolding last_set_def
  by (induction tr' rule: rev_induct) (auto split: metric_call.splits option.splits)

lemma ops_calls_append: "ops_calls (ops @ ops') b = ops_calls ops b @ ops_calls ops' (run_ops ops b)"
  by (induction ops arbitrary: b) simp_all

lemma run_ops_append: "run_ops (ops @ ops') b = run_ops ops' (run_ops ops b)"
  by (induction ops arbitrary: b) simp_all

lemma run_ops_fails: "run_ops (replicate n (OpUpdate False ci)) b = fails n ci b"
proof (induction n)
  case (Suc n)
  have "replicate (Suc n) (OpUpdate False ci) = replicate n (OpUpdate False ci) @ [OpUpdate False ci]"
    by (simp only: replicate_Suc replicate_append_same)
  with Suc show ?case by (simp only: run_ops_append) simp
qed simp

lemma last_set_health: "last_set circuitBreakerState ls (UpdateBackendHealth n h) = None"
  by (simp add: UpdateBackendHealth_def last_set_def)

lemma gauge_set_at_threshold:
  assumes "Name b = n" "FailureCount b = 0"
  shows "last_set circuitBreakerState [n] (ops_calls (replicate 5 (OpUpdate False ci)) b) = Some 2"
proof -
  have "replicate 5 (OpUpdate False ci) = replicate 4 (OpUpdate False ci) @ [OpUpdate False ci]"
    by (simp add: numeral_eq_Suc)
  moreover have "FailureCount (fails 4 ci b) = 4" "Name (fails 4 ci b) = n"
    using fails_count [of 4 ci b] fails_Name [of 4 ci b] assms by simp_all
  ultimately show ?thesis
    by (simp add: ops_calls_append run_ops_fails last_set_append UpdateStatus_calls
        UpdateCircuitBreakerState_def RecordBackendFailure_def UpdateBackendHealth_def
        last_set_def word_sle_eq)
qed

text \<open>
  Whatever operations run on a backend, its \<open>ananse_circuit_breaker_state\<close> gauge is either
  never set or last set to 2 (open): no operation reports a half-open or a closed circuit. In
  particular five failures followed by a success leave the circuit closed and the gauge at 2.
\<close>

theorem circuit_gauge_never_leaves_open:
  "last_set circuitBreakerState [n] (ops_calls ops b) \<in> {None, Some 2} \<and>
   (let recovered = replicate 5 (OpUpdate False 10) @ [OpUpdate True 10]
    in circ_state (run_ops recovered (fresh_backend n u)) = Closed \<and>
       last_set circuitBreakerState [n] (ops_calls recovered (fresh_backend n u)) = Some 2)"
proof (intro conjI)
  show "last_set circuitBreakerState [n] (ops_calls ops b) \<in> {None, Some 2}"
    using ops_calls_gauge [of "[n]" _ ops b] last_set_mem [of circuitBreakerState "[n]"]
    by (cases "last_set circuitBreakerState [n] (ops_calls ops b)") auto
  show "let recovered = replicate 5 (OpUpdate False 10) @ [OpUpdate True 10]
    in circ_state (run_ops recovered (fresh_backend n u)) = Closed \<and>
       last_set circuitBreakerState [n] (ops_calls recovered (fresh_backend n u)) = Some 2"
    by (simp add: run_ops_append ops_calls_append last_set_append UpdateStatus_calls
        UpdateStatus_healthy gauge_set_at_threshold last_set_health)
qed

end
