(* ===== verification/Backend_Pool.thy ===== *)
theory Backend_Pool
  imports Backend_Circuit "HOL-Library.Multiset"
begin

text \<open>
  \<open>pkg/proxy/backend.go\<close>, second half: the pool that maps a service name to its backends.
  The Go code shares backends by pointer: the pool, the load balancer, the health checker and
  the requests in flight all hold \<open>*Backend\<close> values, and a configuration update replaces the
  map while older pointers stay in use. The model therefore has an explicit store: a pointer
  is a number (\<open>bref\<close>), \<open>heap\<close> gives the backend it points to, \<open>next_ref\<close> is the next
  pointer to allocate, and \<open>calls\<close> is the trace of metric calls.
\<close>

section \<open>State and operations\<close>

type_synonym bref = nat

record pool =
  Backends :: "string \<rightharpoonup> bref list"
  heap :: "bref \<Rightarrow> Backend"
  next_ref :: bref
  calls :: metric_trace

text \<open>A method call through a pointer.\<close>

definition upd :: "bref \<Rightarrow> (Backend \<Rightarrow> Backend) \<Rightarrow> pool \<Rightarrow> pool" where
  "upd r f p = p\<lparr>heap := (heap p)(r := f (heap p r))\<rparr>"

definition emit :: "metric_trace \<Rightarrow> pool \<Rightarrow> pool" where
  "emit tr p = p\<lparr>calls := calls p @ tr\<rparr>"

definition GetBackendsForService :: "pool \<Rightarrow> string \<Rightarrow> bref list option" where
  "GetBackendsForService p service =
     (case Backends p service of None \<Rightarrow> None | Some backends \<Rightarrow> Some backends)"

definition GetServiceBackendCount :: "pool \<Rightarrow> string \<Rightarrow> nat \<times> bool" where
  "GetServiceBackendCount p service =
     (case Backends p service of None \<Rightarrow> (0, False) | Some backends \<Rightarrow> (length backends, True))"

definition GetTotalBackendCount :: "string list \<Rightarrow> pool \<Rightarrow> nat" where
  "GetTotalBackendCount order p =
     for_range order (Backends p) (\<lambda>_ backends count. count + length backends) 0"

definition GetAllBackends :: "string list \<Rightarrow> pool \<Rightarrow> bref list" where
  "GetAllBackends order p =
     for_range order (Backends p) (\<lambda>_ backends result. result @ backends) []"

definition GetAllServices :: "string list \<Rightarrow> pool \<Rightarrow> string list" where
  "GetAllServices order p =
     for_range order (Backends p) (\<lambda>service _ services. services @ [service]) []"

definition pool_GetCircuitState ::
  "pool \<Rightarrow> string \<Rightarrow> string \<Rightarrow> duration \<Rightarrow> (bool \<times> State) \<times> pool" where
  "pool_GetCircuitState p service backendName checkInterval =
     (case GetBackendsForService p service of
        None \<Rightarrow> ((False, Closed), p)
      | Some backends \<Rightarrow>
          (case find (\<lambda>r. Name (heap p r) = backendName) backends of
             None \<Rightarrow> ((False, Closed), p)
           | Some r \<Rightarrow> (fst (GetCircuitState (heap p r) checkInterval),
                        upd r (\<lambda>b. snd (GetCircuitState b checkInterval)) p)))"

definition UpdateBackendStatus ::
  "pool \<Rightarrow> string \<Rightarrow> string \<Rightarrow> bool \<Rightarrow> duration \<Rightarrow> pool" where
  "UpdateBackendStatus p service backendName healthy checkInterval =
     (case Backends p service of
        None \<Rightarrow> p
      | Some backends \<Rightarrow>
          (case find (\<lambda>r. Name (heap p r) = backendName) backends of
             None \<Rightarrow> p
           | Some r \<Rightarrow> emit (snd (UpdateStatus (heap p r) healthy checkInterval))
                        (upd r (\<lambda>b. fst (UpdateStatus b healthy checkInterval)) p)))"

text \<open>
  \<open>UpdateBackends\<close> swaps the map and hands the old and the new one to the draining
  goroutine, which computes the removed backends and then watches each of them.
\<close>

definition UpdateBackends :: "pool \<Rightarrow> (string \<rightharpoonup> bref list) \<Rightarrow> pool" where
  "UpdateBackends p newBackends = p\<lparr>Backends := newBackends\<rparr>"

definition findRemovedBackends ::
  "(bref \<Rightarrow> Backend) \<Rightarrow> string list \<Rightarrow> (string \<rightharpoonup> bref list) \<Rightarrow> (string \<rightharpoonup> bref list) \<Rightarrow> bref list" where
  "findRemovedBackends h order oldMap newMap =
     for_range order oldMap
       (\<lambda>service oldBackends removed.
          let newNames = (case newMap service of None \<Rightarrow> {} | Some bs \<Rightarrow> set (map (\<lambda>r. Name (h r)) bs))
          in removed @ filter (\<lambda>r. Name (h r) \<notin> newNames) oldBackends)
       []"

text \<open>
  Each removed backend has a goroutine that waits on a 30 s timeout and a 100 ms ticker;
  \<open>drain_event\<close> is one round of its \<open>select\<close> and says whether the goroutine returns.
  The goroutines run beside everything else: a schedule lists which goroutine wakes up
  for which reason, and what the rest of the program did to the pool before that (\<open>env\<close>).
\<close>

datatype drain_event = DrainTimeout | DrainTick

definition drain_event_step :: "bref \<Rightarrow> drain_event \<Rightarrow> pool \<Rightarrow> pool \<times> bool" where
  "drain_event_step r ev p =
     (case ev of
        DrainTimeout \<Rightarrow> (upd r Close p, True)
      | DrainTick \<Rightarrow>
          if GetActiveRequests (heap p r) = 0 then (upd r Close p, True) else (p, False))"

fun drain_goroutines ::
  "((pool \<Rightarrow> pool) \<times> bref \<times> drain_event) list \<Rightarrow> bref list \<Rightarrow> pool \<Rightarrow> pool \<times> bref list" where
  "drain_goroutines [] running p = (p, running)"
| "drain_goroutines ((env, r, ev) # evs) running p =
     (if r \<in> set running
      then let (p', returned) = drain_event_step r ev (env p)
           in drain_goroutines evs (if returned then removeAll r running else running) p'
      else drain_goroutines evs running (env p))"

definition drainRemovedBackends ::
  "string list \<Rightarrow> (string \<rightharpoonup> bref list) \<Rightarrow> (string \<rightharpoonup> bref list) \<Rightarrow>
   ((pool \<Rightarrow> pool) \<times> bref \<times> drain_event) list \<Rightarrow> pool \<Rightarrow> pool \<times> bref list" where
  "drainRemovedBackends order oldMap newMap evs p =
     drain_goroutines evs (findRemovedBackends (heap p) order oldMap newMap) p"

lemmas pool_op_defs [go_defs] =
  GetBackendsForService_def GetServiceBackendCount_def GetTotalBackendCount_def
  GetAllBackends_def GetAllServices_def pool_GetCircuitState_def UpdateBackendStatus_def
  UpdateBackends_def

section \<open>Framing\<close>

lemma GetBackendsForService_eq [simp]: "GetBackendsForService p s = Backends p s"
  by (simp add: GetBackendsForService_def split: option.split)

lemma upd_simps [simp]:
  "Backends (upd r f p) = Backends p" "next_ref (upd r f p) = next_ref p" "calls (upd r f p) = calls p"
  "heap (upd r f p) = (heap p)(r := f (heap p r))"
  by (simp_all add: upd_def)

lemma emit_simps [simp]:
  "Backends (emit tr p) = Backends p" "next_ref (emit tr p) = next_ref p"
  "heap (emit tr p) = heap p" "calls (emit tr p) = calls p @ tr"
  by (simp_all add: emit_def)

lemma emit_Nil [simp]: "emit [] p = p"
  by (simp add: emit_def)

lemma emit_emit [simp]: "emit tr' (emit tr p) = emit (tr @ tr') p"
  by (simp add: emit_def)

lemma pool_GetCircuitState_frame [simp, go_frame]:
  "Backends (snd (pool_GetCircuitState p s n ci)) = Backends p"
  "next_ref (snd (pool_GetCircuitState p s n ci)) = next_ref p"
  "calls (snd (pool_GetCircuitState p s n ci)) = calls p"
  "Name (heap (snd (pool_GetCircuitState p s n ci)) r) = Name (heap p r)"
  "TargetUrl (heap (snd (pool_GetCircuitState p s n ci)) r) = TargetUrl (heap p r)"
  "Healthy (heap (snd (pool_GetCircuitState p s n ci)) r) = Healthy (heap p r)"
  "ActiveRequest (heap (snd (pool_GetCircuitState p s n ci)) r) = ActiveRequest (heap p r)"
  "is_closed (heap (snd (pool_GetCircuitState p s n ci)) r) = is_closed (heap p r)"
  by (simp_all add: pool_GetCircuitState_def split: option.split)

lemma UpdateBackendStatus_frame [simp, go_frame]:
  "Backends (UpdateBackendStatus p s n h ci) = Backends p"
  "next_ref (UpdateBackendStatus p s n h ci) = next_ref p"
  "Name (heap (UpdateBackendStatus p s n h ci) r) = Name (heap p r)"
  "TargetUrl (heap (UpdateBackendStatus p s n h ci) r) = TargetUrl (heap p r)"
  "ActiveRequest (heap (UpdateBackendStatus p s n h ci) r) = ActiveRequest (heap p r)"
  "is_closed (heap (UpdateBackendStatus p s n h ci) r) = is_closed (heap p r)"
  by (simp_all add: UpdateBackendStatus_def split: option.split)

section \<open>Draining\<close>

lemma drain_goroutines_finish:
  assumes "\<forall>r\<in>set running. \<exists>env. (env, r, DrainTimeout) \<in> set evs"
  shows "snd (drain_goroutines evs running p) = []"
  using assms
proof (induction evs arbitrary: running p)
  case Nil
  then show ?case by (cases running) auto
next
  case (Cons e evs)
  obtain env r ev where e: "e = (env, r, ev)" by (cases e) auto
  show ?case
  proof (cases "r \<in> set running \<and> snd (drain_event_step r ev (env p))")
    case True
    then have "\<forall>r'\<in>set (removeAll r running). \<exists>env. (env, r', DrainTimeout) \<in> set evs"
      using Cons.prems e by auto
    then show ?thesis using True Cons.IH e by (auto simp: split_beta)
  next
    case False
    then have "\<forall>r'\<in>set running. \<exists>env. (env, r', DrainTimeout) \<in> set evs"
      using Cons.prems e by (fastforce simp: drain_event_step_def split: drain_event.splits if_splits)
    then show ?thesis using False Cons.IH e by (auto simp: split_beta)
  qed
qed

lemma drain_goroutines_closed:
  assumes "\<And>env r ev q. (env, r, ev) \<in> set evs \<Longrightarrow> is_closed (heap q x) \<Longrightarrow> is_closed (heap (env q) x)"
    and "is_closed (heap p x) \<or> x \<in> set running"
  shows "is_closed (heap (fst (drain_goroutines evs running p)) x) \<or>
    x \<in> set (snd (drain_goroutines evs running p))"
  using assms
proof (induction evs arbitrary: running p)
  case (Cons e evs)
  obtain env r ev where e: "e = (env, r, ev)" by (cases e) auto
  let ?q = "drain_event_step r ev (env p)"
  have keep: "is_closed (heap p x) \<Longrightarrow> is_closed (heap (env p) x)" using Cons.prems(1) [of env r ev] e by simp
  have closes: "is_closed (heap (env p) x) \<Longrightarrow> is_closed (heap (fst ?q) x)"
    "snd ?q \<Longrightarrow> is_closed (heap (fst ?q) r)"
    by (auto simp: drain_event_step_def split: drain_event.splits)
  have IH: "is_closed (heap (fst (drain_goroutines evs run q)) x) \<or>
      x \<in> set (snd (drain_goroutines evs run q))" if "is_closed (heap q x) \<or> x \<in> set run" for run q
    using Cons.prems(1) by (intro Cons.IH that) (meson list.set_intros(2))
  have "is_closed (heap (fst ?q) x) \<or> x \<in> set (if snd ?q then removeAll r running else running)"
    using keep closes Cons.prems(2) by (cases "x = r") auto
  from IH [OF this] IH [of "env p" running] show ?case using keep Cons.prems(2) e
    by (auto simp: split_beta)
qed simp

section \<open>Updates by name\<close>

lemma find_unique:
  assumes "distinct (map f xs)" "x \<in> set xs" "f x = y"
  shows "find (\<lambda>x. f x = y) xs = Some x"
  using assms by (induction xs) force+

lemma find_key_None: "find (\<lambda>x. f x = y) xs = None \<longleftrightarrow> (\<forall>x\<in>set xs. f x \<noteq> y)"
  by (auto simp: find_None_iff)

lemma UpdateBackendStatus_hit:
  assumes "Backends p s = Some bs" "distinct (map (\<lambda>r. Name (heap p r)) bs)" "r \<in> set bs"
    "Name (heap p r) = n"
  shows "UpdateBackendStatus p s n h ci =
    emit (snd (UpdateStatus (heap p r) h ci)) (upd r (\<lambda>b. fst (UpdateStatus b h ci)) p)"
  using find_unique [OF assms(2-4)] assms(1) by (simp add: UpdateBackendStatus_def)

lemma UpdateBackendStatus_miss:
  assumes "\<And>bs r. Backends p s = Some bs \<Longrightarrow> r \<in> set bs \<Longrightarrow> Name (heap p r) \<noteq> n"
  shows "UpdateBackendStatus p s n h ci = p"
  using assms
  by (auto simp: UpdateBackendStatus_def find_Some_iff split: option.split) (metis nth_mem)

lemma pool_GetCircuitState_hit:
  assumes "Backends p s = Some bs" "distinct (map (\<lambda>r. Name (heap p r)) bs)" "r \<in> set bs"
    "Name (heap p r) = n"
  shows "pool_GetCircuitState p s n ci =
    (fst (GetCircuitState (heap p r) ci), upd r (\<lambda>b. snd (GetCircuitState b ci)) p)"
  using find_unique [OF assms(2-4)] assms(1) by (simp add: pool_GetCircuitState_def)

section \<open>Removed backends\<close>

definition removed_in :: "(bref \<Rightarrow> Backend) \<Rightarrow> (string \<rightharpoonup> bref list) \<Rightarrow> string \<Rightarrow> bref list \<Rightarrow> bref list" where
  "removed_in h newMap service oldBackends =
     filter (\<lambda>r. \<forall>bs. newMap service = Some bs \<longrightarrow> (\<forall>r'\<in>set bs. Name (h r') \<noteq> Name (h r))) oldBackends"

lemma removed_body:
  "filter (\<lambda>r. Name (h r) \<notin> (case new s of None \<Rightarrow> {} | Some bs \<Rightarrow> set (map (\<lambda>r. Name (h r)) bs))) old =
     removed_in h new s old"
  by (auto simp: removed_in_def image_iff intro!: filter_cong split: option.split)

lemma findRemovedBackends_eq:
  "findRemovedBackends h ks old new =
     concat (map (\<lambda>s. case old s of None \<Rightarrow> [] | Some bs \<Rightarrow> removed_in h new s bs) ks)"
  unfolding findRemovedBackends_def Let_def removed_body by (simp add: for_range_collect)

lemma mset_concat_map: "mset (concat (map f ks)) = sum_mset (image_mset (\<lambda>k. mset (f k)) (mset ks))"
  by (induction ks) simp_all

lemma mset_concat_map_cong:
  "mset ks = mset ks' \<Longrightarrow> mset (concat (map f ks)) = mset (concat (map f ks'))"
  by (simp add: mset_concat_map)

text \<open>
  A configuration update drains exactly the backends whose service no longer lists a
  backend of the same name, in whatever order the loop visits the services: two orders give
  the same backends, up to permutation.
\<close>

theorem findRemovedBackends_correct:
  assumes "range_order old ks" "range_order old ks'"
  shows "set (findRemovedBackends h ks old new) =
      {r. \<exists>s bs. old s = Some bs \<and> r \<in> set bs \<and>
            (\<forall>bs'. new s = Some bs' \<longrightarrow> (\<forall>r'\<in>set bs'. Name (h r') \<noteq> Name (h r)))} \<and>
    mset (findRemovedBackends h ks old new) = mset (findRemovedBackends h ks' old new)"
proof
  have ks: "set ks = dom old" "distinct ks" "set ks' = dom old" "distinct ks'"
    using assms by (auto simp: range_order_def)
  show "set (findRemovedBackends h ks old new) =
      {r. \<exists>s bs. old s = Some bs \<and> r \<in> set bs \<and>
            (\<forall>bs'. new s = Some bs' \<longrightarrow> (\<forall>r'\<in>set bs'. Name (h r') \<noteq> Name (h r)))}"
    using ks(1) by (force simp: findRemovedBackends_eq removed_in_def split: option.splits)
  have "mset ks = mset ks'" using ks by (metis set_eq_iff_mset_eq_distinct)
  then show "mset (findRemovedBackends h ks old new) = mset (findRemovedBackends h ks' old new)"
    unfolding findRemovedBackends_eq by (rule mset_concat_map_cong)
qed

definition example_pool :: pool where
  "example_pool =
     \<lparr>Backends = [''a'' \<mapsto> [0, 1]],
      heap = (\<lambda>r. fresh_backend (if r = 0 then ''a-0'' else ''a-1'') example_url),
      next_ref = 2, calls = []\<rparr>"

theorem findRemovedBackends_correct_witness:
  "set (findRemovedBackends (heap example_pool) [''a''] [''a'' \<mapsto> [0, 1]] [''a'' \<mapsto> [0]]) = {1}"
proof -
  have o: "range_order [''a'' \<mapsto> [0, 1 :: nat]] [''a'']" by (simp add: range_order_def)
  show ?thesis
    using findRemovedBackends_correct [OF o o, of "heap example_pool" "[''a'' \<mapsto> [0]]"]
    by (auto simp: example_pool_def split: if_splits)
qed

section \<open>Reachable pools and the requests in flight\<close>

text \<open>
  The well-formedness of the store: within a service the backend names are pairwise
  different, the pool only holds allocated pointers, and every allocated backend satisfies
  the invariant of the circuit breaker.
\<close>

definition pool_inv :: "pool \<Rightarrow> bool" where
  "pool_inv p \<longleftrightarrow>
     (\<forall>s bs. Backends p s = Some bs \<longrightarrow>
        distinct (map (\<lambda>r. Name (heap p r)) bs) \<and> (\<forall>r\<in>set bs. r < next_ref p)) \<and>
     (\<forall>r<next_ref p. circuit_inv (heap p r))"

lemma pool_inv_service:
  assumes "pool_inv p" "Backends p s = Some bs"
  shows "distinct (map (\<lambda>r. Name (heap p r)) bs)" "r \<in> set bs \<Longrightarrow> r < next_ref p"
    "r \<in> set bs \<Longrightarrow> circuit_inv (heap p r)" "distinct bs"
  using assms by (auto simp: pool_inv_def distinct_map)

lemma query_healthy:
  assumes "pool_inv p" "Backends p s = Some bs" "b \<in> set bs" "Healthy (heap p b)"
  shows "pool_GetCircuitState p s (Name (heap p b)) ci = ((True, Closed), p)"
proof -
  have "circ_state (heap p b) = Closed"
    using pool_inv_service(3) [OF assms(1-3)] assms(4) by (rule circuit_inv_closed)
  then show ?thesis
    using pool_GetCircuitState_hit [OF assms(2) pool_inv_service(1) [OF assms(1,2)] assms(3) refl]
    by (simp add: upd_def)
qed

lemma pool_inv_upd [go_inv]:
  assumes "pool_inv p" "Name (f (heap p r)) = Name (heap p r)"
    and "r < next_ref p \<Longrightarrow> circuit_inv (heap p r) \<Longrightarrow> circuit_inv (f (heap p r))"
  shows "pool_inv (upd r f p)"
proof -
  have names: "(\<lambda>r'. Name (heap (upd r f p) r')) = (\<lambda>r. Name (heap p r))"
    using assms(2) by auto
  show ?thesis using assms(1,3) unfolding pool_inv_def names by simp
qed

lemma pool_inv_emit [simp]: "pool_inv (emit tr p) = pool_inv p"
  by (simp add: pool_inv_def)

lemma pool_inv_GetCircuitState [go_inv]:
  "pool_inv p \<Longrightarrow> pool_inv (snd (pool_GetCircuitState p s n ci))"
  by (auto simp: pool_GetCircuitState_def intro: go_inv split: option.split)

lemma pool_inv_UpdateBackendStatus [go_inv]:
  "pool_inv p \<Longrightarrow> pool_inv (UpdateBackendStatus p s n h ci)"
  by (auto simp: UpdateBackendStatus_def intro: go_inv split: option.split)

lemma pool_inv_active [go_inv]:
  "pool_inv p \<Longrightarrow> pool_inv (upd r IncrementActiveRequests p)"
  "pool_inv p \<Longrightarrow> pool_inv (upd r DecrementActiveRequests p)"
  "pool_inv p \<Longrightarrow> pool_inv (upd r Close p)"
  by (auto intro: go_inv)

text \<open>
  The atomic steps that the goroutines of the proxy take on the pool, in any interleaving,
  beside the multiset of backends that the requests in flight hold: a request takes or gives
  back a backend, someone queries a circuit or reports a status, a drained backend is closed,
  and a new configuration puts freshly allocated backends in place of the old map.
\<close>

inductive pool_step :: "pool \<times> bref multiset \<Rightarrow> pool \<times> bref multiset \<Rightarrow> bool" where
  step_acquire: "r < next_ref p \<Longrightarrow>
    pool_step (p, fl) (upd r IncrementActiveRequests p, add_mset r fl)"
| step_release: "pool_step (p, add_mset r fl) (upd r DecrementActiveRequests p, fl)"
| step_query: "pool_step (p, fl) (snd (pool_GetCircuitState p s n ci), fl)"
| step_report: "pool_step (p, fl) (UpdateBackendStatus p s n h ci, fl)"
| step_close: "pool_step (p, fl) (upd r Close p, fl)"
| step_emit: "pool_step (p, fl) (emit tr p, fl)"
| step_alloc:
    "next_ref p \<le> nx \<Longrightarrow> (\<forall>r<next_ref p. hp r = heap p r) \<Longrightarrow>
     (\<forall>r. next_ref p \<le> r \<longrightarrow> r < nx \<longrightarrow> (\<exists>n u. hp r = fresh_backend n u)) \<Longrightarrow>
     pool_step (p, fl) (p\<lparr>heap := hp, next_ref := nx\<rparr>, fl)"
| step_config:
    "next_ref p \<le> nx \<Longrightarrow> (\<forall>r<next_ref p. hp r = heap p r) \<Longrightarrow>
     (\<forall>r. next_ref p \<le> r \<longrightarrow> r < nx \<longrightarrow> (\<exists>n u. hp r = fresh_backend n u)) \<Longrightarrow>
     (\<forall>s bs. new s = Some bs \<longrightarrow>
        distinct (map (\<lambda>r. Name (hp r)) bs) \<and> (\<forall>r\<in>set bs. next_ref p \<le> r \<and> r < nx)) \<Longrightarrow>
     pool_step (p, fl) (UpdateBackends (p\<lparr>heap := hp, next_ref := nx\<rparr>) new, fl)"

inductive pool_reach :: "pool \<times> bref multiset \<Rightarrow> bool" where
  pool_start: "Backends p = Map.empty \<Longrightarrow> next_ref p = 0 \<Longrightarrow> pool_reach (p, {#})"
| pool_next: "pool_reach s \<Longrightarrow> pool_step s t \<Longrightarrow> pool_reach t"

definition accounted :: "pool \<Rightarrow> bref multiset \<Rightarrow> bool" where
  "accounted p fl \<longleftrightarrow>
     (\<forall>r<next_ref p. ActiveRequest (heap p r) = of_nat (count fl r)) \<and> (\<forall>r\<in>#fl. r < next_ref p)"

lemma pool_inv_alloc:
  assumes "pool_inv p" "accounted p fl" "next_ref p \<le> nx" "\<forall>r<next_ref p. hp r = heap p r"
    "\<forall>r. next_ref p \<le> r \<longrightarrow> r < nx \<longrightarrow> (\<exists>n u. hp r = fresh_backend n u)"
  shows "pool_inv (p\<lparr>heap := hp, next_ref := nx\<rparr>)" "accounted (p\<lparr>heap := hp, next_ref := nx\<rparr>) fl"
proof -
  have "ActiveRequest (hp r) = of_nat (count fl r) \<and> circuit_inv (hp r)" if "r < nx" for r
  proof (cases "r < next_ref p")
    case True
    then show ?thesis using assms(1,2,4) by (simp add: accounted_def pool_inv_def)
  next
    case False
    then have "count fl r = 0" using assms(2) by (auto simp: accounted_def count_eq_zero_iff)
    moreover obtain n u where "hp r = fresh_backend n u" using assms(5) False \<open>r < nx\<close> by (meson leI)
    ultimately show ?thesis by simp
  qed
  then show "accounted (p\<lparr>heap := hp, next_ref := nx\<rparr>) fl" "pool_inv (p\<lparr>heap := hp, next_ref := nx\<rparr>)"
    using assms(1-4) by (force simp: accounted_def pool_inv_def cong: map_cong)+
qed

lemma pool_step_inv:
  "pool_step s t \<Longrightarrow> pool_inv (fst s) \<Longrightarrow> accounted (fst s) (snd s) \<Longrightarrow>
     pool_inv (fst t) \<and> accounted (fst t) (snd t)"
proof (induction rule: pool_step.induct)
  case (step_alloc p nx hp fl)
  then show ?case using pool_inv_alloc [of p fl nx hp] by simp
next
  case (step_config p nx hp new fl)
  then show ?case using pool_inv_alloc [of p fl nx hp]
    by (auto simp: pool_inv_def accounted_def UpdateBackends_def)
qed (auto simp: accounted_def intro: go_inv)

lemma active_requests_accounted_aux:
  assumes "pool_reach (p, fl)"
  shows "pool_inv p \<and> accounted p fl"
proof -
  have "pool_inv (fst s) \<and> accounted (fst s) (snd s)" if "pool_reach s" for s
    using that by (induction rule: pool_reach.induct)
      (auto simp: pool_inv_def accounted_def dest: pool_step_inv)
  from this [OF assms] show ?thesis by simp
qed

text \<open>
  C5. In every state that the interleaved steps of requests, health checks, drains and
  configuration updates can reach, the names within a service are distinct, healthy backends
  have closed circuits, and the active-request counter of every backend, also of one already
  removed from the pool, is the number of requests in flight that hold it (modulo the 32-bit
  width of the counter).
\<close>

theorem active_requests_accounted:
  assumes "pool_reach (p, fl)"
  shows "pool_inv p \<and> (\<forall>r<next_ref p. ActiveRequest (heap p r) = of_nat (count fl r))"
  using active_requests_accounted_aux [OF assms] by (simp add: accounted_def)

text \<open>A run that reaches a pool of one service with a request in flight.\<close>

definition empty_pool :: pool where
  "empty_pool = \<lparr>Backends = Map.empty, heap = (\<lambda>r. fresh_backend [] example_url), next_ref = 0,
     calls = []\<rparr>"

definition loaded_pool :: pool where
  "loaded_pool =
     UpdateBackends (empty_pool\<lparr>heap := (\<lambda>r. fresh_backend ''a-0'' example_url), next_ref := 1\<rparr>)
       [''a'' \<mapsto> [0]]"

lemma loaded_pool_simps [simp]:
  "next_ref loaded_pool = 1" "Backends loaded_pool = [''a'' \<mapsto> [0]]"
  "heap loaded_pool r = fresh_backend ''a-0'' example_url"
  by (simp_all add: loaded_pool_def UpdateBackends_def)

lemma loaded_pool_reach: "pool_reach (loaded_pool, {#})"
proof (rule pool_next)
  show "pool_reach (empty_pool, {#})" by (rule pool_start) (simp_all add: empty_pool_def)
  show "pool_step (empty_pool, {#}) (loaded_pool, {#})"
    unfolding loaded_pool_def by (rule step_config) (auto simp: empty_pool_def split: if_splits)
qed

lemma loaded_pool_inv: "pool_inv loaded_pool"
  by (auto simp: pool_inv_def)

lemma loaded_pool_busy: "pool_reach (upd 0 IncrementActiveRequests loaded_pool, {#0#})"
  by (rule pool_next [OF loaded_pool_reach step_acquire]) simp

theorem active_requests_accounted_witness:
  "ActiveRequest (heap (upd 0 IncrementActiveRequests loaded_pool) 0) = 1"
  using active_requests_accounted [OF loaded_pool_busy] by simp

text \<open>
  The ticker of a draining goroutine closes a removed backend exactly when no request in
  flight holds it (for fewer than \<open>2 ^ 32\<close> requests): no backend is closed under a request
  before its 30 s timeout.
\<close>

theorem drain_tick_only_when_idle:
  assumes "pool_reach (p, fl)" "r < next_ref p" "count fl r < 2 ^ 32"
  shows "drain_event_step r DrainTick p =
    (if count fl r = 0 then (upd r Close p, True) else (p, False))"
proof -
  have "ActiveRequest (heap p r) = of_nat (count fl r)"
    using active_requests_accounted_aux [OF assms(1)] assms(2) by (simp add: accounted_def)
  moreover have "(of_nat (count fl r) :: int32) = 0 \<longleftrightarrow> count fl r = 0"
    using assms(3) by (auto simp: word_of_nat_eq_0_iff dest: dvd_imp_le)
  ultimately show ?thesis by (simp add: drain_event_step_def GetActiveRequests_def)
qed

theorem drain_tick_only_when_idle_witness:
  "drain_event_step 0 DrainTick (upd 0 IncrementActiveRequests loaded_pool) =
     (upd 0 IncrementActiveRequests loaded_pool, False)"
  using drain_tick_only_when_idle [OF loaded_pool_busy, of 0] by simp

text \<open>
  C6. Draining ends: under every schedule in which the 30 s timeout of each removed backend
  fires, and whatever the rest of the program does in between (as long as it does not reopen a
  closed backend), all draining goroutines have returned and every removed backend is closed.
\<close>

theorem drain_closes_all_removed:
  assumes "\<forall>r\<in>set (findRemovedBackends (heap p) ks old new). \<exists>env. (env, r, DrainTimeout) \<in> set evs"
    and "\<forall>(env, r, ev)\<in>set evs. \<forall>q x. is_closed (heap q x) \<longrightarrow> is_closed (heap (env q) x)"
    and "drainRemovedBackends ks old new evs p = (p', running)"
  shows "running = [] \<and> (\<forall>r\<in>set (findRemovedBackends (heap p) ks old new). is_closed (heap p' r))"
proof -
  let ?rs = "findRemovedBackends (heap p) ks old new"
  have p': "drain_goroutines evs ?rs p = (p', running)"
    using assms(3) by (simp add: drainRemovedBackends_def)
  have run: "running = []" using drain_goroutines_finish [OF assms(1), of p] p' by simp
  have "is_closed (heap p' r)" if "r \<in> set ?rs" for r
  proof -
    have "is_closed (heap (fst (drain_goroutines evs ?rs p)) r) \<or>
        r \<in> set (snd (drain_goroutines evs ?rs p))"
    proof (rule drain_goroutines_closed)
      show "is_closed (heap (env q) r)"
        if "(env, r', ev) \<in> set evs" "is_closed (heap q r)" for env r' ev q
        using assms(2) that by fastforce
    qed (use that in simp)
    then show ?thesis using p' run by simp
  qed
  with run show ?thesis by blast
qed

theorem drain_closes_all_removed_witness:
  "is_closed (heap (fst (drainRemovedBackends [''a''] [''a'' \<mapsto> [0, 1]] [''a'' \<mapsto> [0]]
     [(id, 1, DrainTimeout)] example_pool)) 1)"
proof -
  let ?d = "drainRemovedBackends [''a''] [''a'' \<mapsto> [0, 1]] [''a'' \<mapsto> [0]]
     [(id, 1, DrainTimeout)] example_pool"
  have rs: "findRemovedBackends (heap example_pool) [''a''] [''a'' \<mapsto> [0, 1]] [''a'' \<mapsto> [0]] = [1]"
    by (simp add: findRemovedBackends_def example_pool_def)
  show ?thesis
    using drain_closes_all_removed [of example_pool "[''a'']" "[''a'' \<mapsto> [0, 1]]" "[''a'' \<mapsto> [0]]"
        "[(id, 1, DrainTimeout)]" "fst ?d" "snd ?d"] rs by simp
qed

end
