(* ===== verification/Load_Balancer.thy ===== *)
theory Load_Balancer
  imports Backend_Pool
begin

text \<open>
  \<open>pkg/proxy/loadbalancer.go\<close>: the choice of a backend for a request. The balancer keeps its
  strategy and one round-robin index per service; it reads the pool through
  \<open>GetBackendsForService\<close> and queries the circuit of every backend it looks at, which may
  change the pool. The contract of a peer selection is the locale \<open>peer_selector\<close>; it is
  interpreted by \<open>GetNextPeer\<close> for every state of the balancer.
\<close>

section \<open>State and operations\<close>

record LoadBalancer =
  Strategy :: string
  current :: int64
  rrIndices :: "string \<rightharpoonup> nat"

datatype lb_error = NoHealthyBackends | ServiceNotFoundOrNoBackends

definition NewLoadBalancer :: "string \<Rightarrow> LoadBalancer" where
  "NewLoadBalancer strategy = \<lparr>Strategy = strategy, current = 0, rrIndices = Map.empty\<rparr>"

text \<open>
  The loop of \<open>getNextRoundRobin\<close> over the backends in visiting order: a backend whose
  circuit refuses the check is skipped, the first healthy one of the others is returned.
\<close>

fun rr_scan :: "pool \<Rightarrow> string \<Rightarrow> bref list \<Rightarrow> bref option \<times> pool" where
  "rr_scan p service [] = (None, p)"
| "rr_scan p service (b # bs) =
     (let ((shouldCheck, state), p') =
        pool_GetCircuitState p service (Name (heap p b)) (10 * Second)
      in if \<not> shouldCheck then rr_scan p' service bs
         else if IsHealthy (heap p' b) \<and> shouldCheck then (Some b, p')
         else rr_scan p' service bs)"

definition getNextRoundRobin ::
  "LoadBalancer \<Rightarrow> pool \<Rightarrow> string \<Rightarrow> bref option \<times> LoadBalancer \<times> pool" where
  "getNextRoundRobin lb p service =
     (case GetBackendsForService p service of
        None \<Rightarrow> (None, lb, p)
      | Some backends \<Rightarrow>
          if length backends = 0 then (None, lb, p)
          else
            let lb' = (if rrIndices lb service = None
                       then lb\<lparr>rrIndices := (rrIndices lb)(service \<mapsto> 0)\<rparr> else lb);
                start = the (rrIndices lb' service);
                visit = map (\<lambda>i. backends ! ((start + i) mod length backends)) [0..<length backends];
                (result, p') = rr_scan p service visit
            in (result, lb', p'))"

text \<open>The loop of \<open>getNextLeastConnection\<close>, with the best backend so far.\<close>

fun lc_scan :: "pool \<Rightarrow> string \<Rightarrow> bref list \<Rightarrow> bref option \<Rightarrow> bref option \<times> pool" where
  "lc_scan p service [] least = (least, p)"
| "lc_scan p service (b # bs) least =
     (let ((shouldCheck, _), p') =
        pool_GetCircuitState p service (Name (heap p b)) (10 * Second)
      in if \<not> IsHealthy (heap p' b) \<or> \<not> shouldCheck then lc_scan p' service bs least
         else lc_scan p' service bs
           (case least of
              None \<Rightarrow> Some b
            | Some l \<Rightarrow> if GetActiveRequests (heap p' b) <s GetActiveRequests (heap p' l)
                        then Some b else Some l))"

definition getNextLeastConnection :: "pool \<Rightarrow> string \<Rightarrow> (lb_error + bref) \<times> pool" where
  "getNextLeastConnection p service =
     (case GetBackendsForService p service of
        None \<Rightarrow> (Inl ServiceNotFoundOrNoBackends, p)
      | Some backends \<Rightarrow>
          if length backends = 0 then (Inl ServiceNotFoundOrNoBackends, p)
          else
            let (least, p') = lc_scan p service backends None
            in (case least of
                  None \<Rightarrow> (Inl NoHealthyBackends, p')
                | Some b \<Rightarrow> (Inr b, p')))"

definition GetNextPeer ::
  "LoadBalancer \<Rightarrow> pool \<Rightarrow> string \<Rightarrow> (lb_error + bref) \<times> LoadBalancer \<times> pool" where
  "GetNextPeer lb p service =
     (if Strategy lb = ''least-connections''
      then let (r, p') = getNextLeastConnection p service in (r, lb, p')
      else let (b, lb', p') = getNextRoundRobin lb p service
           in (case b of None \<Rightarrow> (Inl NoHealthyBackends, lb', p') | Some r \<Rightarrow> (Inr r, lb', p')))"

section \<open>What a scan changes and returns\<close>

text \<open>
  The part of the pool that a peer selection must not touch: everything but the timers and
  failure counts of the circuits.
\<close>

definition same_backends :: "pool \<Rightarrow> pool \<Rightarrow> bool" where
  "same_backends p q \<longleftrightarrow>
     Backends q = Backends p \<and> next_ref q = next_ref p \<and> calls q = calls p \<and>
     (\<forall>r. Name (heap q r) = Name (heap p r) \<and> TargetUrl (heap q r) = TargetUrl (heap p r) \<and>
          Healthy (heap q r) = Healthy (heap p r) \<and>
          ActiveRequest (heap q r) = ActiveRequest (heap p r) \<and>
          is_closed (heap q r) = is_closed (heap p r))"

lemma same_backends_refl [simp]: "same_backends p p"
  by (simp add: same_backends_def)

lemma same_backends_trans [trans]: "same_backends p q \<Longrightarrow> same_backends q r \<Longrightarrow> same_backends p r"
  by (simp add: same_backends_def)

lemma same_backends_query [simp]: "same_backends p (snd (pool_GetCircuitState p s n ci))"
  by (simp add: same_backends_def)

lemma same_backendsD:
  assumes "same_backends p q"
  shows "Backends q = Backends p" "next_ref q = next_ref p" "calls q = calls p"
    "Name (heap q r) = Name (heap p r)" "TargetUrl (heap q r) = TargetUrl (heap p r)"
    "Healthy (heap q r) = Healthy (heap p r)" "ActiveRequest (heap q r) = ActiveRequest (heap p r)"
    "is_closed (heap q r) = is_closed (heap p r)"
  using assms by (simp_all add: same_backends_def)

lemma rr_scan_same: "same_backends p (snd (rr_scan p s xs))"
proof (induction xs arbitrary: p)
  case (Cons x xs)
  then show ?case
    by (auto simp: split_beta intro: same_backends_trans [OF same_backends_query])
qed simp

lemma rr_scan_inv: "pool_inv p \<Longrightarrow> pool_inv (snd (rr_scan p s xs))"
  by (induction xs arbitrary: p) (auto simp: split_beta intro: go_inv)

lemma rr_scan_finds_healthy:
  assumes "pool_inv p" "Backends p s = Some bs" "set xs \<subseteq> set bs"
  shows "fst (rr_scan p s xs) = find (\<lambda>r. Healthy (heap p r)) xs"
  using assms
proof (induction xs arbitrary: p)
  case (Cons x xs)
  let ?p' = "snd (pool_GetCircuitState p s (Name (heap p x)) (10 * Second))"
  have IH: "fst (rr_scan ?p' s xs) = find (\<lambda>r. Healthy (heap p r)) xs"
    using Cons.IH [of ?p'] Cons.prems by (simp add: go_inv)
  show ?case
  proof (cases "Healthy (heap p x)")
    case True
    then show ?thesis using query_healthy [OF Cons.prems(1,2), of x] Cons.prems(3)
      by (simp add: IsHealthy_def)
  qed (simp add: IH split_beta IsHealthy_def)
qed simp

lemma lc_scan_same: "same_backends p (snd (lc_scan p s xs least))"
proof (induction xs arbitrary: p least)
  case (Cons x xs)
  then show ?case
    by (auto simp: split_beta intro: same_backends_trans [OF same_backends_query])
qed simp

lemma lc_scan_inv: "pool_inv p \<Longrightarrow> pool_inv (snd (lc_scan p s xs least))"
  by (induction xs arbitrary: p least) (auto simp: split_beta intro: go_inv)

text \<open>The choice that the least-connections loop makes, without the circuit queries.\<close>

definition lc_pick :: "pool \<Rightarrow> bref option \<Rightarrow> bref \<Rightarrow> bref option" where
  "lc_pick p least b =
     (if Healthy (heap p b)
      then case least of
             None \<Rightarrow> Some b
           | Some l \<Rightarrow> if ActiveRequest (heap p b) <s ActiveRequest (heap p l) then Some b else Some l
      else least)"

lemma lc_scan_picks:
  assumes "pool_inv p" "Backends p s = Some bs" "set xs \<subseteq> set bs"
  shows "fst (lc_scan p s xs least) = foldl (lc_pick p) least xs"
  using assms
proof (induction xs arbitrary: p least)
  case (Cons x xs)
  let ?p' = "snd (pool_GetCircuitState p s (Name (heap p x)) (10 * Second))"
  have same: "lc_pick ?p' = lc_pick p" by (intro ext) (simp add: lc_pick_def split: option.split)
  have IH: "fst (lc_scan ?p' s xs l) = foldl (lc_pick p) l xs" for l
    using Cons.IH [of ?p' l] Cons.prems same by (simp add: go_inv)
  show ?case
  proof (cases "Healthy (heap p x)")
    case True
    then have q: "pool_GetCircuitState p s (Name (heap p x)) (10 * Second) = ((True, Closed), p)"
      using query_healthy [OF Cons.prems(1,2), of x] Cons.prems(3) by simp
    then show ?thesis using IH True 
      by (simp add: IsHealthy_def GetActiveRequests_def lc_pick_def [of p least x] cong: option.case_cong)
  qed (simp add: IH split_beta IsHealthy_def lc_pick_def [of p least x])
qed simp

lemma lc_pick_None: "foldl (lc_pick p) None xs = None \<longleftrightarrow> (\<forall>b\<in>set xs. \<not> Healthy (heap p b))"
  by (induction xs rule: rev_induct) (auto simp: lc_pick_def split: option.splits)

lemma lc_pick_least:
  "foldl (lc_pick p) None xs = Some r \<Longrightarrow>
     r \<in> set xs \<and> Healthy (heap p r) \<and>
     (\<forall>b\<in>set xs. Healthy (heap p b) \<longrightarrow> sint (ActiveRequest (heap p r)) \<le> sint (ActiveRequest (heap p b)))"
proof (induction xs arbitrary: r rule: rev_induct)
  case (snoc x xs)
  show ?case
  proof (cases "foldl (lc_pick p) None xs")
    case None
    then show ?thesis using snoc.prems lc_pick_None [of p xs]
      by (auto simp: lc_pick_def [of p None x] split: if_splits)
  next
    case (Some l)
    then show ?thesis using snoc.prems snoc.IH [OF Some]
      by (auto simp: lc_pick_def [of p "Some l" x] word_sless_alt split: if_splits)
  qed
qed simp

section \<open>The contract of a peer selection\<close>

text \<open>
  What the request handlers rely on: a selection leaves membership, health, names and active
  counts alone, it only returns a healthy backend of the service, and it fails only when
  there is none.
\<close>

locale peer_selector =
  fixes select :: "pool \<Rightarrow> string \<Rightarrow> (lb_error + bref) \<times> pool"
  assumes select_same: "same_backends p (snd (select p s))"
    and select_inv: "pool_inv p \<Longrightarrow> pool_inv (snd (select p s))"
    and select_sound: "pool_inv p \<Longrightarrow> fst (select p s) = Inr r \<Longrightarrow>
      \<exists>bs. Backends p s = Some bs \<and> r \<in> set bs \<and> Healthy (heap p r)"
    and select_complete: "pool_inv p \<Longrightarrow> Backends p s = Some bs \<Longrightarrow> r \<in> set bs \<Longrightarrow>
      Healthy (heap p r) \<Longrightarrow> \<exists>r'. fst (select p s) = Inr r'"
begin

lemma select_error_iff:
  assumes "pool_inv p"
  shows "(\<exists>e. fst (select p s) = Inl e) \<longleftrightarrow>
    \<not> (\<exists>bs r. Backends p s = Some bs \<and> r \<in> set bs \<and> Healthy (heap p r))"
  using select_sound [OF assms] select_complete [OF assms]
  by (metis Inl_Inr_False old.sum.exhaust)

text \<open>
  A backend that has just been reported as failed is not chosen again: the report marks it
  unhealthy, and a selection only returns healthy backends.
\<close>

lemma select_avoids_failed:
  assumes "pool_inv p" "fst (select p s) = Inr r"
    and "q = UpdateBackendStatus (snd (select p s)) s (Name (heap p r)) False ci"
  shows "fst (select q s) \<noteq> Inr r"
    and "\<And>r'. r' \<noteq> r \<Longrightarrow> Healthy (heap q r') = Healthy (heap p r')"
    and "\<not> Healthy (heap q r)"
proof -
  let ?p' = "snd (select p s)"
  note same = same_backendsD [OF select_same [of p s]]
  obtain bs where bs: "Backends p s = Some bs" "r \<in> set bs"
    using select_sound [OF assms(1,2)] by blast
  have inv: "pool_inv ?p'" by (rule select_inv [OF assms(1)])
  have q: "q = emit (snd (UpdateStatus (heap ?p' r) False ci))
      (upd r (\<lambda>b. fst (UpdateStatus b False ci)) ?p')"
    using UpdateBackendStatus_hit [of ?p' s bs r "Name (heap p r)" False ci] bs
      pool_inv_service(1) [OF inv, of s bs] same by (simp add: assms(3))
  then show unhealthy: "\<not> Healthy (heap q r)" by simp
  show "Healthy (heap q r') = Healthy (heap p r')" if "r' \<noteq> r" for r'
    using q that same by simp
  have "pool_inv q" using inv by (simp add: assms(3) go_inv)
  then show "fst (select q s) \<noteq> Inr r" using select_sound unhealthy by blast
qed

end

section \<open>The strategies meet the contract\<close>

definition rr_start :: "LoadBalancer \<Rightarrow> string \<Rightarrow> nat" where
  "rr_start lb s = (case rrIndices lb s of None \<Rightarrow> 0 | Some i \<Rightarrow> i)"

lemma visit_rotate: "map (\<lambda>i. xs ! ((k + i) mod length xs)) [0..<length xs] = rotate k xs"
  by (rule nth_equalityI) (simp_all add: nth_rotate)

lemma getNextRoundRobin_unfold:
  "getNextRoundRobin lb p s =
     (case Backends p s of
        None \<Rightarrow> (None, lb, p)
      | Some bs \<Rightarrow>
          if bs = [] then (None, lb, p)
          else (fst (rr_scan p s (rotate (rr_start lb s) bs)),
                lb\<lparr>rrIndices := (rrIndices lb)(s \<mapsto> rr_start lb s)\<rparr>,
                snd (rr_scan p s (rotate (rr_start lb s) bs))))"
  by (auto simp: getNextRoundRobin_def Let_def rr_start_def visit_rotate split_beta map_upd_triv
      split: option.split)

lemma getNextRoundRobin_result:
  assumes "pool_inv p"
  shows "fst (getNextRoundRobin lb p s) =
    (case Backends p s of None \<Rightarrow> None | Some bs \<Rightarrow> find (\<lambda>r. Healthy (heap p r)) (rotate (rr_start lb s) bs))"
  using rr_scan_finds_healthy [OF assms, of s]
  by (auto simp: getNextRoundRobin_unfold split: option.split)

lemma getNextLeastConnection_result:
  assumes "pool_inv p" "Backends p s = Some bs" "bs \<noteq> []"
  shows "fst (getNextLeastConnection p s) =
    (case foldl (lc_pick p) None bs of None \<Rightarrow> Inl NoHealthyBackends | Some r \<Rightarrow> Inr r)"
  using lc_scan_picks [OF assms(1,2) subset_refl, of None] assms(2,3)
  by (auto simp: getNextLeastConnection_def split_beta split: option.split)

lemma GetNextPeer_same: "same_backends p (snd (snd (GetNextPeer lb p s)))"
  using rr_scan_same lc_scan_same
  by (auto simp: GetNextPeer_def getNextLeastConnection_def getNextRoundRobin_unfold split_beta
      split: option.split)

lemma GetNextPeer_inv [go_inv]: "pool_inv p \<Longrightarrow> pool_inv (snd (snd (GetNextPeer lb p s)))"
  using rr_scan_inv lc_scan_inv
  by (auto simp: GetNextPeer_def getNextLeastConnection_def getNextRoundRobin_unfold split_beta
      split: option.split)

lemma GetNextPeer_sound:
  assumes "pool_inv p" "fst (GetNextPeer lb p s) = Inr r"
  shows "\<exists>bs. Backends p s = Some bs \<and> r \<in> set bs \<and> Healthy (heap p r)"
proof (cases "Strategy lb = ''least-connections''")
  case True
  with assms(2) have "fst (getNextLeastConnection p s) = Inr r"
    by (simp add: GetNextPeer_def split_beta)
  moreover from this obtain bs where "Backends p s = Some bs" "bs \<noteq> []"
    by (cases "Backends p s") (auto simp: getNextLeastConnection_def split: if_splits)
  ultimately show ?thesis
    using getNextLeastConnection_result [OF assms(1)] lc_pick_least [of p bs r]
    by (auto split: option.splits)
next
  case False
  then have "fst (getNextRoundRobin lb p s) = Some r"
    using assms(2) by (auto simp: GetNextPeer_def split_beta split: option.splits)
  then show ?thesis
    using getNextRoundRobin_result [OF assms(1), of lb s] by (auto dest: find_SomeD split: option.splits)
qed

lemma GetNextPeer_complete:
  assumes "pool_inv p" "Backends p s = Some bs" "r \<in> set bs" "Healthy (heap p r)"
  shows "\<exists>r'. fst (GetNextPeer lb p s) = Inr r'"
proof (cases "Strategy lb = ''least-connections''")
  case True
  have "foldl (lc_pick p) None bs \<noteq> None" using assms(3,4) lc_pick_None [of p bs] by blast
  moreover have "bs \<noteq> []" using assms(3) by auto
  ultimately show ?thesis using True getNextLeastConnection_result [OF assms(1,2)]
    by (auto simp: GetNextPeer_def split_beta)
next
  case False
  have "\<exists>r'. find (\<lambda>r. Healthy (heap p r)) (rotate (rr_start lb s) bs) = Some r'"
    by (rule find_exists) (use assms(3,4) in simp_all)
  then show ?thesis using False getNextRoundRobin_result [OF assms(1), of lb s] assms(2)
    by (auto simp: GetNextPeer_def split_beta)
qed

interpretation lb: peer_selector
  "\<lambda>p s. (fst (GetNextPeer lb p s), snd (snd (GetNextPeer lb p s)))" for lb
  by unfold_locales
     (auto simp: GetNextPeer_same dest: GetNextPeer_sound GetNextPeer_complete intro: go_inv)

text \<open>
  C7. For both strategies and every state of the balancer: \<open>GetNextPeer\<close> returns a healthy
  backend of the requested service whenever the service has one, it returns an error exactly
  when there is none, and it leaves the membership, the health flags and the active counts of
  all backends as they are.
\<close>

theorem GetNextPeer_correct:
  assumes "pool_inv p"
  shows "(\<forall>r. fst (GetNextPeer lb p s) = Inr r \<longrightarrow>
      (\<exists>bs. Backends p s = Some bs \<and> r \<in> set bs \<and> Healthy (heap p r))) \<and>
    ((\<exists>e. fst (GetNextPeer lb p s) = Inl e) \<longleftrightarrow>
      \<not> (\<exists>bs r. Backends p s = Some bs \<and> r \<in> set bs \<and> Healthy (heap p r))) \<and>
    same_backends p (snd (snd (GetNextPeer lb p s)))"
  using lb.select_sound [OF assms, of lb s] lb.select_error_iff [OF assms, of lb s]
    lb.select_same [of p lb s] by auto

theorem GetNextPeer_correct_witness:
  "fst (GetNextPeer (NewLoadBalancer ''round-robin'') loaded_pool ''a'') = Inr 0 \<and>
   (\<exists>e. fst (GetNextPeer (NewLoadBalancer ''round-robin'') loaded_pool ''b'') = Inl e)"
proof
  let ?lb = "NewLoadBalancer ''round-robin''"
  note c = GetNextPeer_correct [OF loaded_pool_inv, of ?lb]
  from c [of "''a''"] show "fst (GetNextPeer ?lb loaded_pool ''a'') = Inr 0"
    by (cases "fst (GetNextPeer ?lb loaded_pool ''a'')") auto
  from c [of "''b''"] show "\<exists>e. fst (GetNextPeer ?lb loaded_pool ''b'') = Inl e" by simp
qed

text \<open>
  The least-connections strategy returns a backend whose active count is minimal among
  the healthy backends of the service.
\<close>

theorem least_connections_minimal:
  assumes "pool_inv p" "Strategy lb = ''least-connections''" "fst (GetNextPeer lb p s) = Inr r"
    and "Backends p s = Some bs" "b \<in> set bs" "Healthy (heap p b)"
  shows "r \<in> set bs \<and> sint (ActiveRequest (heap p r)) \<le> sint (ActiveRequest (heap p b))"
proof -
  have "bs \<noteq> []" using assms(5) by auto
  then have "foldl (lc_pick p) None bs = Some r"
    using getNextLeastConnection_result [OF assms(1,4)] assms(2,3)
    by (auto simp: GetNextPeer_def split_beta split: option.splits)
  from lc_pick_least [OF this] assms(5,6) show ?thesis by blast
qed

theorem least_connections_minimal_witness:
  "fst (GetNextPeer (NewLoadBalancer ''least-connections'')
     (upd 0 IncrementActiveRequests example_pool) ''a'') = Inr 1"
proof -
  let ?p = "upd 0 IncrementActiveRequests example_pool" and ?lb = "NewLoadBalancer ''least-connections''"
  have inv: "pool_inv ?p"
    by (rule go_inv) (auto simp: pool_inv_def example_pool_def)
  obtain r where r: "fst (GetNextPeer ?lb ?p ''a'') = Inr r"
    using GetNextPeer_complete [OF inv, of "''a''" "[0, 1]" 1 ?lb] by (auto simp: example_pool_def)
  from least_connections_minimal [OF inv _ r, of "[0, 1]" 1] have "r = 1"
    by (auto simp: example_pool_def NewLoadBalancer_def)
  with r show ?thesis by simp
qed

section \<open>The round-robin index\<close>

fun successive_peers :: "nat \<Rightarrow> LoadBalancer \<Rightarrow> pool \<Rightarrow> string \<Rightarrow> (lb_error + bref) list" where
  "successive_peers 0 lb p s = []"
| "successive_peers (Suc n) lb p s =
     (let (r, lb', p') = GetNextPeer lb p s in r # successive_peers n lb' p' s)"

lemma GetNextPeer_lb:
  "Strategy (fst (snd (GetNextPeer lb p s))) = Strategy lb"
  "rr_start (fst (snd (GetNextPeer lb p s))) s = rr_start lb s"
  by (auto simp: GetNextPeer_def getNextRoundRobin_unfold rr_start_def split_beta
      split: option.split)

lemma GetNextPeer_rr_result:
  assumes "pool_inv p" "Strategy lb \<noteq> ''least-connections''"
  shows "fst (GetNextPeer lb p s) =
    (case Backends p s of
       None \<Rightarrow> Inl NoHealthyBackends
     | Some bs \<Rightarrow>
         (case find (\<lambda>r. Healthy (heap p r)) (rotate (rr_start lb s) bs) of
            None \<Rightarrow> Inl NoHealthyBackends | Some r \<Rightarrow> Inr r))"
  using getNextRoundRobin_result [OF assms(1), of lb s] assms(2)
  by (auto simp: GetNextPeer_def split_beta split: option.split)

text \<open>
  C8. The round-robin strategy (the default) never advances its index: as long as the health
  flags do not change, all requests for a service go to one and the same backend, the first
  healthy one from the stored index, and every other backend gets none.
\<close>

theorem round_robin_does_not_rotate:
  assumes "pool_inv p" "Strategy lb \<noteq> ''least-connections''"
  shows "successive_peers n lb p s = replicate n (fst (GetNextPeer lb p s))"
  using assms
proof (induction n arbitrary: lb p)
  case (Suc n)
  let ?lb = "fst (snd (GetNextPeer lb p s))" and ?p = "snd (snd (GetNextPeer lb p s))"
  have inv: "pool_inv ?p" using Suc.prems(1) by (rule go_inv)
  have strat: "Strategy ?lb \<noteq> ''least-connections''" using Suc.prems(2) by (simp add: GetNextPeer_lb)
  have "fst (GetNextPeer ?lb ?p s) = fst (GetNextPeer lb p s)"
    using GetNextPeer_rr_result [OF inv strat, of s] GetNextPeer_rr_result [OF Suc.prems, of s]
    by (simp add: GetNextPeer_lb same_backendsD [OF GetNextPeer_same [of p lb s]] cong: option.case_cong)
  then show ?case using Suc.IH [OF inv strat] by (simp add: split_beta)
qed simp

theorem round_robin_does_not_rotate_witness:
  "successive_peers 4 (NewLoadBalancer ''round-robin'') example_pool ''a'' = [Inr 0, Inr 0, Inr 0, Inr 0]"
proof -
  have inv: "pool_inv example_pool" by (auto simp: pool_inv_def example_pool_def)
  have "Strategy (NewLoadBalancer ''round-robin'') \<noteq> ''least-connections''"
    by (simp add: NewLoadBalancer_def)
  from round_robin_does_not_rotate [OF inv this, of 4 "''a''"]
    GetNextPeer_rr_result [OF inv this, of "''a''"] show ?thesis
    by (simp add: numeral_eq_Suc example_pool_def rr_start_def NewLoadBalancer_def)
qed

end
