(* ===== verification/Health_Check.thy ===== *)
theory Health_Check
  imports Backend_Pool
begin

text \<open>
  \<open>pkg/proxy/health.go\<close>: the periodic health check. A round of \<open>Check\<close> walks over all
  services and backends, asks each circuit whether the backend should be probed and starts a
  goroutine per probe; a probe sends \<open>GET /health\<close> and reports the outcome to the pool. The
  HTTP client is the parameter \<open>get\<close>. The probes of a round run concurrently, and each of
  them changes the pool in one atomic report, so their interleavings are the permutations of
  the list of probes (the semaphore of 20 slots only restricts which of them occur). The
  second part is the life cycle of the checking goroutines themselves, which \<open>Restart\<close> stops
  and starts through a channel.
\<close>

section \<open>One round of checks\<close>

record Health =
  checkInterval :: duration
  stopCh :: nat

definition getInterval :: "Health \<Rightarrow> duration" where
  "getInterval h = checkInterval h"

definition GetHealthCheckInterval :: "Health \<Rightarrow> duration" where
  "GetHealthCheckInterval h = getInterval h"

datatype http_outcome = NewRequestErr | DoErr | Response int

definition checkBackend ::
  "(URL \<Rightarrow> http_outcome) \<Rightarrow> Health \<Rightarrow> string \<Rightarrow> bref \<Rightarrow> pool \<Rightarrow> pool" where
  "checkBackend get h service backend p =
     (let healthURL = (TargetUrl (heap p backend))\<lparr>UPath := ''/health''\<rparr>;
          name = Name (heap p backend)
      in case get healthURL of
           NewRequestErr \<Rightarrow> UpdateBackendStatus p service name False (getInterval h)
         | DoErr \<Rightarrow> UpdateBackendStatus p service name False (getInterval h)
         | Response StatusCode \<Rightarrow>
             if StatusCode \<ge> 200 \<and> StatusCode < 300
             then UpdateBackendStatus p service name True (getInterval h)
             else UpdateBackendStatus p service name False (getInterval h))"

text \<open>The loops of a tick; the result lists the probes that were started.\<close>

fun check_backends ::
  "Health \<Rightarrow> string \<Rightarrow> bref list \<Rightarrow> pool \<Rightarrow> (string \<times> bref) list \<Rightarrow> pool \<times> (string \<times> bref) list" where
  "check_backends h service [] p probes = (p, probes)"
| "check_backends h service (backend # backends) p probes =
     (let ((shouldCheck, _), p') = pool_GetCircuitState p service (Name (heap p backend)) (getInterval h)
      in if \<not> shouldCheck then check_backends h service backends p' probes
         else check_backends h service backends p' (probes @ [(service, backend)]))"

fun check_services ::
  "Health \<Rightarrow> string list \<Rightarrow> pool \<Rightarrow> (string \<times> bref) list \<Rightarrow> pool \<times> (string \<times> bref) list" where
  "check_services h [] p probes = (p, probes)"
| "check_services h (service # services) p probes =
     (case GetBackendsForService p service of
        Some backends \<Rightarrow>
          let (p', probes') = check_backends h service backends p probes
          in check_services h services p' probes'
      | None \<Rightarrow> check_services h services p probes)"

definition Check_tick :: "Health \<Rightarrow> string list \<Rightarrow> pool \<Rightarrow> pool \<times> (string \<times> bref) list" where
  "Check_tick h order p = check_services h (GetAllServices order p) p []"

definition run_probes ::
  "(URL \<Rightarrow> http_outcome) \<Rightarrow> Health \<Rightarrow> (string \<times> bref) list \<Rightarrow> pool \<Rightarrow> pool" where
  "run_probes get h probes p = fold (\<lambda>(s, b). checkBackend get h s b) probes p"

section \<open>The life cycle of the checking goroutines\<close>

text \<open>
  A goroutine that runs \<open>Check\<close> first makes its ticker, which panics on an interval that is
  not positive, and then loops: it evaluates \<open>h.stopCh\<close> and waits for that channel or a tick,
  and after a tick it runs a round before it evaluates \<open>h.stopCh\<close> again. A closed channel and
  a tick may be ready at the same time; the choice is then open. Channels are numbers;
  \<open>closed_chs\<close> holds the closed ones.
\<close>

datatype check_goroutine = Starting | Running | Selecting nat | Crashed

record health_sys =
  hc :: Health
  closed_chs :: "nat set"
  next_ch :: nat
  gos :: "check_goroutine list"

definition NewHealthCheck :: "duration \<Rightarrow> health_sys" where
  "NewHealthCheck interval =
     \<lparr>hc = \<lparr>checkInterval = interval, stopCh = 0\<rparr>, closed_chs = {}, next_ch = 1, gos = []\<rparr>"

definition go_Check :: "health_sys \<Rightarrow> health_sys" where
  "go_Check s = s\<lparr>gos := gos s @ [Starting]\<rparr>"

definition Restart :: "duration \<Rightarrow> health_sys \<Rightarrow> health_sys" where
  "Restart newInterval s =
     (let s1 = (if stopCh (hc s) \<in> closed_chs s
                then s\<lparr>hc := (hc s)\<lparr>stopCh := next_ch s\<rparr>, next_ch := next_ch s + 1\<rparr>
                else s\<lparr>closed_chs := insert (stopCh (hc s)) (closed_chs s),
                       hc := (hc s)\<lparr>stopCh := next_ch s\<rparr>, next_ch := next_ch s + 1\<rparr>);
          s2 = s1\<lparr>hc := (hc s1)\<lparr>checkInterval := newInterval\<rparr>\<rparr>
      in go_Check s2)"

datatype check_event = MakeTicker | EnterSelect | TickReady | StopReady

definition Check_step :: "nat \<Rightarrow> check_event \<Rightarrow> health_sys \<Rightarrow> health_sys option" where
  "Check_step i ev s =
     (if i < length (gos s) then
        (case (gos s ! i, ev) of
           (Starting, MakeTicker) \<Rightarrow>
             Some (s\<lparr>gos := (gos s)[i := if 0 <s getInterval (hc s) then Running else Crashed]\<rparr>)
         | (Running, EnterSelect) \<Rightarrow> Some (s\<lparr>gos := (gos s)[i := Selecting (stopCh (hc s))]\<rparr>)
         | (Selecting ch, TickReady) \<Rightarrow> Some (s\<lparr>gos := (gos s)[i := Running]\<rparr>)
         | (Selecting ch, StopReady) \<Rightarrow>
             if ch \<in> closed_chs s
             then Some (s\<lparr>gos := take i (gos s) @ drop (Suc i) (gos s)\<rparr>) else None
         | _ \<Rightarrow> None)
      else None)"

inductive health_reach :: "health_sys \<Rightarrow> bool" where
  hr_new: "health_reach (go_Check (NewHealthCheck interval))"
| hr_check: "health_reach s \<Longrightarrow> Check_step i ev s = Some t \<Longrightarrow> health_reach t"
| hr_restart: "health_reach s \<Longrightarrow> health_reach (Restart newInterval s)"

section \<open>What a round does\<close>

definition disjoint_services :: "pool \<Rightarrow> bool" where
  "disjoint_services p \<longleftrightarrow>
     (\<forall>s s' bs bs'. Backends p s = Some bs \<longrightarrow> Backends p s' = Some bs' \<longrightarrow> s \<noteq> s' \<longrightarrow>
        set bs \<inter> set bs' = {})"

text \<open>Whether a backend's circuit admits a probe, and the pool after querying some backends.\<close>

definition admits :: "pool \<Rightarrow> duration \<Rightarrow> bref \<Rightarrow> bool" where
  "admits p ci r = fst (fst (GetCircuitState (heap p r) ci))"

definition queried :: "duration \<Rightarrow> bref set \<Rightarrow> pool \<Rightarrow> pool" where
  "queried ci R p = p\<lparr>heap := (\<lambda>r. if r \<in> R then snd (GetCircuitState (heap p r) ci) else heap p r)\<rparr>"

definition refs_of :: "pool \<Rightarrow> string \<Rightarrow> bref list" where
  "refs_of p s = (case Backends p s of None \<Rightarrow> [] | Some bs \<Rightarrow> bs)"

lemma refs_of_mem: "r \<in> set (refs_of p s) \<longleftrightarrow> (\<exists>bs. Backends p s = Some bs \<and> r \<in> set bs)"
  by (cases "Backends p s") (simp_all add: refs_of_def)

lemma disjoint_refs_of:
  "disjoint_services p \<Longrightarrow> s \<noteq> s' \<Longrightarrow> set (refs_of p s) \<inter> set (refs_of p s') = {}"
  unfolding disjoint_services_def disjoint_iff refs_of_mem by metis

lemma queried_simps [simp]:
  "Backends (queried ci R p) = Backends p" "next_ref (queried ci R p) = next_ref p"
  "calls (queried ci R p) = calls p" "queried ci {} p = p"
  "heap (queried ci R p) r = (if r \<in> R then snd (GetCircuitState (heap p r) ci) else heap p r)"
  "refs_of (queried ci R p) = refs_of p" "disjoint_services (queried ci R p) = disjoint_services p"
  by (simp_all add: queried_def refs_of_def fun_eq_iff disjoint_services_def)

lemma queried_queried: "R \<inter> R' = {} \<Longrightarrow> queried ci R' (queried ci R p) = queried ci (R \<union> R') p"
  by (rule pool.equality) (auto simp: fun_eq_iff)

lemma pool_inv_queried [go_inv]: "pool_inv p \<Longrightarrow> pool_inv (queried ci R p)"
  by (auto simp: pool_inv_def if_distrib [of Name] cong: if_cong intro: circuit_inv_GetCircuitState)

lemma query_one:
  assumes "pool_inv p" "Backends p s = Some bs" "r \<in> set bs"
  shows "pool_GetCircuitState p s (Name (heap p r)) ci =
    (fst (GetCircuitState (heap p r) ci), queried ci {r} p)"
  using pool_GetCircuitState_hit [OF assms(2) pool_inv_service(1) [OF assms(1,2)] assms(3) refl]
  by (auto simp: upd_def queried_def fun_eq_iff)

lemma check_backends_eq:
  assumes "pool_inv p" "Backends p s = Some all" "set bs \<subseteq> set all" "distinct bs"
  shows "check_backends h s bs p probes =
    (queried (getInterval h) (set bs) p, probes @ map (Pair s) (filter (admits p (getInterval h)) bs))"
  using assms
proof (induction bs arbitrary: p probes)
  case (Cons b bs)
  let ?ci = "getInterval h" and ?q = "queried (getInterval h) {b} p"
  have IH: "check_backends h s bs ?q probes' =
      (queried ?ci (insert b (set bs)) p, probes' @ map (Pair s) (filter (admits p ?ci) bs))" for probes'
  proof -
    have "filter (admits ?q ?ci) bs = filter (admits p ?ci) bs"
      using Cons.prems(4) by (intro filter_cong) (auto simp: admits_def)
    then show ?thesis
      using Cons.IH [of ?q probes'] Cons.prems pool_inv_queried by (simp add: queried_queried)
  qed
  have "check_backends h s (b # bs) p probes =
      check_backends h s bs ?q (if admits p ?ci b then probes @ [(s, b)] else probes)"
    using query_one [of p s all b ?ci] Cons.prems
    by (cases "GetCircuitState (heap p b) ?ci") (auto simp: admits_def split_beta)
  with IH show ?case by simp
qed simp

lemma check_services_eq:
  assumes "pool_inv p" "disjoint_services p" "distinct ss"
  shows "check_services h ss p probes =
    (queried (getInterval h) (\<Union>s\<in>set ss. set (refs_of p s)) p,
     probes @ concat (map (\<lambda>s. map (Pair s) (filter (admits p (getInterval h)) (refs_of p s))) ss))"
  using assms
proof (induction ss arbitrary: p probes)
  case (Cons s ss)
  let ?ci = "getInterval h" and ?q = "queried (getInterval h) (set (refs_of p s)) p"
  let ?probes = "probes @ map (Pair s) (filter (admits p ?ci) (refs_of p s))"
  have step: "check_services h (s # ss) p probes = check_services h ss ?q ?probes"
  proof (cases "Backends p s")
    case (Some bs)
    then show ?thesis
      using check_backends_eq [OF Cons.prems(1) Some subset_refl] pool_inv_service(4) [OF Cons.prems(1) Some]
      by (simp add: refs_of_def)
  qed (simp add: refs_of_def)
  have apart: "set (refs_of p s) \<inter> set (refs_of p s') = {}" if "s' \<in> set ss" for s'
    using that Cons.prems(2,3) by (intro disjoint_refs_of) auto
  then have "set (refs_of p s) \<inter> (\<Union>s'\<in>set ss. set (refs_of p s')) = {}" by blast
  moreover have "filter (admits ?q ?ci) (refs_of p s') = filter (admits p ?ci) (refs_of p s')"
    if "s' \<in> set ss" for s'
    using apart [OF that] by (intro filter_cong) (auto simp: admits_def)
  ultimately show ?case
    unfolding step using Cons.IH [of ?q ?probes] Cons.prems pool_inv_queried
    by (simp add: queried_queried cong: map_cong)
qed simp

lemma GetAllServices_eq: "GetAllServices ks p = filter (\<lambda>s. Backends p s \<noteq> None) ks"
proof -
  have "GetAllServices ks p = concat (map (\<lambda>s. case Backends p s of None \<Rightarrow> [] | Some _ \<Rightarrow> [s]) ks)"
    by (simp add: GetAllServices_def for_range_collect)
  also have "\<dots> = filter (\<lambda>s. Backends p s \<noteq> None) ks"
    by (induction ks) (simp_all split: option.split)
  finally show ?thesis .
qed

lemma Check_tick_eq:
  assumes "pool_inv p" "disjoint_services p" "range_order (Backends p) ks"
  shows "Check_tick h ks p =
    (queried (getInterval h) (\<Union>s\<in>set ks. set (refs_of p s)) p,
     concat (map (\<lambda>s. map (Pair s) (filter (admits p (getInterval h)) (refs_of p s))) ks))"
proof -
  have "GetAllServices ks p = ks"
    using assms(3) by (auto simp: GetAllServices_eq range_order_def filter_id_conv)
  then show ?thesis
    using check_services_eq [OF assms(1,2)] assms(3) by (simp add: Check_tick_def range_order_def)
qed

text \<open>The verdict of a probe.\<close>

definition probe_ok :: "(URL \<Rightarrow> http_outcome) \<Rightarrow> URL \<Rightarrow> bool" where
  "probe_ok get u \<longleftrightarrow> (\<exists>code\<in>{200..<300}. get (u\<lparr>UPath := ''/health''\<rparr>) = Response code)"

lemma checkBackend_eq:
  "checkBackend get h s r p =
     UpdateBackendStatus p s (Name (heap p r)) (probe_ok get (TargetUrl (heap p r))) (getInterval h)"
  by (auto simp: checkBackend_def probe_ok_def Let_def split: http_outcome.split)

lemma run_probes_heap:
  assumes "pool_inv p" "\<forall>(s, r)\<in>set xs. \<exists>bs. Backends p s = Some bs \<and> r \<in> set bs" "distinct (map snd xs)"
  shows "heap (run_probes get h xs p) r =
    (if r \<in> snd ` set xs
     then fst (UpdateStatus (heap p r) (probe_ok get (TargetUrl (heap p r))) (getInterval h))
     else heap p r)"
  using assms
proof (induction xs arbitrary: p)
  case Nil
  then show ?case by (simp add: run_probes_def)
next
  case (Cons x xs)
  obtain s r' where x: "x = (s, r')" by (cases x)
  let ?q = "checkBackend get h s r' p"
  obtain bs where bs: "Backends p s = Some bs" "r' \<in> set bs" using Cons.prems(2) x by auto
  have heap_q: "heap ?q = (heap p)(r' := fst (UpdateStatus (heap p r')
      (probe_ok get (TargetUrl (heap p r'))) (getInterval h)))"
    unfolding checkBackend_eq
    using UpdateBackendStatus_hit [OF bs(1) pool_inv_service(1) [OF Cons.prems(1) bs(1)] bs(2) refl]
    by simp
  have "heap (run_probes get h xs ?q) r =
      (if r \<in> snd ` set xs
       then fst (UpdateStatus (heap ?q r) (probe_ok get (TargetUrl (heap ?q r))) (getInterval h))
       else heap ?q r)"
    using Cons.prems by (intro Cons.IH) (auto simp: checkBackend_eq intro: go_inv)
  moreover have "run_probes get h (x # xs) p = run_probes get h xs ?q"
    by (simp add: run_probes_def x)
  ultimately show ?case using Cons.prems(3) heap_q x by auto
qed

lemma distinct_probes:
  assumes "pool_inv p" "disjoint_services p" "distinct ks"
  shows "distinct (map snd (concat (map (\<lambda>s. map (Pair s) (filter f (refs_of p s))) ks)))"
  using assms(3)
proof (induction ks)
  case (Cons s ks)
  have "distinct (refs_of p s)"
    using pool_inv_service(4) [OF assms(1)] by (auto simp: refs_of_def split: option.split)
  moreover have "set (refs_of p s) \<inter> set (refs_of p s') = {}" if "s' \<in> set ks" for s'
    using that Cons.prems by (intro disjoint_refs_of assms(2)) auto
  ultimately show ?case using Cons by (auto simp: map_concat o_def)
qed simp

text \<open>The backend that one round makes of a backend of the pool.\<close>

definition checked_backend :: "(URL \<Rightarrow> http_outcome) \<Rightarrow> duration \<Rightarrow> Backend \<Rightarrow> Backend" where
  "checked_backend get ci b =
     (case GetCircuitState b ci of
        ((shouldCheck, _), b') \<Rightarrow>
          if shouldCheck then fst (UpdateStatus b' (probe_ok get (TargetUrl b)) ci) else b')"



section \<open>Stopping and restarting\<close>

definition live_go :: "health_sys \<Rightarrow> check_goroutine \<Rightarrow> bool" where
  "live_go s g \<longleftrightarrow> (case g of Selecting ch \<Rightarrow> ch \<notin> closed_chs s | _ \<Rightarrow> True)"

definition health_inv :: "health_sys \<Rightarrow> bool" where
  "health_inv s \<longleftrightarrow>
     stopCh (hc s) \<notin> closed_chs s \<and> stopCh (hc s) < next_ch s \<and> (\<forall>c\<in>closed_chs s. c < next_ch s) \<and>
     (\<exists>g\<in>set (gos s). live_go s g)"

lemma live_go_gos [simp]: "live_go (s\<lparr>gos := gs\<rparr>) g = live_go s g"
  by (simp add: live_go_def split: check_goroutine.split)

lemma health_inv_new: "health_inv (go_Check (NewHealthCheck interval))"
  by (simp add: health_inv_def NewHealthCheck_def go_Check_def live_go_def)

lemma health_inv_Restart: "health_inv s \<Longrightarrow> health_inv (Restart d s)"
  by (auto simp: health_inv_def Restart_def go_Check_def Let_def live_go_def)

lemma set_remove_nth: "i < length xs \<Longrightarrow> set xs = insert (xs ! i) (set (take i xs @ drop (Suc i) xs))"
  by (metis append_take_drop_id Cons_nth_drop_Suc Un_insert_right list.simps(15) set_append)

lemma health_inv_Check_step:
  assumes "health_inv s" "Check_step i ev s = Some t"
  shows "health_inv t"
proof -
  have i: "i < length (gos s)" using assms(2) by (simp add: Check_step_def split: if_splits)
  have repl: "health_inv (s\<lparr>gos := (gos s)[i := g]\<rparr>)" if "live_go s g" for g
    using assms(1) that set_update_memI [OF i, of g] by (auto simp: health_inv_def)
  have "health_inv (s\<lparr>gos := take i (gos s) @ drop (Suc i) (gos s)\<rparr>)"
    if "gos s ! i = Selecting ch" "ch \<in> closed_chs s" for ch
  proof -
    have "\<not> live_go s (gos s ! i)" using that by (simp add: live_go_def)
    then show ?thesis using assms(1) set_remove_nth [OF i] by (auto simp: health_inv_def)
  qed
  moreover have "live_go s Running" "live_go s Crashed" "live_go s (Selecting (stopCh (hc s)))"
    using assms(1) by (auto simp: live_go_def health_inv_def)
  ultimately show ?thesis using assms(2) repl
    by (auto simp: Check_step_def split: if_splits check_goroutine.splits check_event.splits)
qed

lemma health_reach_inv: "health_reach s \<Longrightarrow> health_inv s"
  by (induction rule: health_reach.induct)
     (auto intro: health_inv_new health_inv_Restart health_inv_Check_step)


lemma fresh_health_reach:
  "health_reach \<lparr>hc = \<lparr>checkInterval = 10, stopCh = 0\<rparr>, closed_chs = {}, next_ch = 1, gos = [Running]\<rparr>"
proof (rule hr_check [OF hr_new [of 10]])
  show "Check_step 0 MakeTicker (go_Check (NewHealthCheck 10)) =
      Some \<lparr>hc = \<lparr>checkInterval = 10, stopCh = 0\<rparr>, closed_chs = {}, next_ch = 1, gos = [Running]\<rparr>"
    by (simp add: Check_step_def go_Check_def NewHealthCheck_def getInterval_def word_sless_alt)
qed


text \<open>
  \<open>Restart\<close> reaches only the goroutines that wait in their \<open>select\<close>. One that waits on
  the current channel can stop afterwards; one that is in a round of checks at that moment
  evaluates \<open>h.stopCh\<close> again when it returns to its \<open>select\<close>, gets the new channel, which is
  open, and goes on checking beside the goroutine that \<open>Restart\<close> started.
\<close>

theorem restart_leaks_busy_goroutine:
  assumes "health_reach s" "i < length (gos s)"
  shows "(gos s ! i = Selecting (stopCh (hc s)) \<longrightarrow>
      (\<exists>t. Check_step i StopReady (Restart d s) = Some t \<and> length (gos t) = length (gos s))) \<and>
    (gos s ! i = Running \<longrightarrow>
      (\<exists>t. Check_step i EnterSelect (Restart d s) = Some t \<and>
        gos t ! i = Selecting (stopCh (hc t)) \<and> Check_step i StopReady t = None \<and>
        length (gos t) = Suc (length (gos s))))"
proof -
  have "stopCh (hc s) \<notin> closed_chs s" "stopCh (hc s) \<noteq> next_ch s" "next_ch s \<notin> closed_chs s"
    using health_reach_inv [OF assms(1)] by (auto simp: health_inv_def)
  then show ?thesis
    using assms(2) by (auto simp: Check_step_def Restart_def go_Check_def Let_def nth_append)
qed

theorem restart_leaks_busy_goroutine_witness:
  "\<exists>t. Check_step 0 EnterSelect (Restart 20 \<lparr>hc = \<lparr>checkInterval = 10, stopCh = 0\<rparr>,
      closed_chs = {}, next_ch = 1, gos = [Running]\<rparr>) = Some t \<and>
    Check_step 0 StopReady t = None \<and> length (gos t) = 2"
  using restart_leaks_busy_goroutine [OF fresh_health_reach, of 0 20] by auto

end
