(* ===== verification/Config_Types.thy ===== *)
theory Config_Types
  imports Go_Prelude
begin

text \<open>
  The configuration messages that the control plane streams to the proxies
  (\<open>controlplane/cmd/controlplane.proto\<close>). A message field that may be absent is an \<open>option\<close>;
  the elements of a repeated field are never nil in a received message. The timestamp
  \<open>last_updated\<close> is a number of nanoseconds.
\<close>

record pb_Endpoint =
  ep_Address :: string

record pb_Route =
  rt_Path :: string
  rt_Methods :: "string list"

record pb_Service =
  svc_Name :: string
  svc_Routes :: "pb_Route list"
  svc_Endpoints :: "pb_Endpoint list"
  svc_ClusterIp :: string
  svc_Port :: int32

record pb_ProxyConfig =
  pc_Port :: int32
  pc_MetricsPort :: int32
  pc_HealthCheckIntervalSeconds :: int32

record pb_Config =
  cfg_Services :: "pb_Service list"
  cfg_ProxyConfig :: "pb_ProxyConfig option"
  cfg_LastUpdated :: int64
  cfg_Version :: string

end
