(* ===== verification/Routing.thy ===== *)
theory Routing
  imports Config_Types
begin

text \<open>
  The routing table of the proxy: \<open>buildRoutingTable\<close> and \<open>buildPathIndex\<close> of
  \<open>pkg/proxy/dataplane.go\<close>, which check a configuration and turn it into a table, and
  \<open>pkg/proxy/Router.go\<close>, which indexes the table and answers lookups by path and method and
  by virtual IP. The loops over the service map take their iteration order as an argument.
  The loop over the methods of a route writes the same service under pairwise different keys,
  so it is one update of the inner map.
\<close>

section \<open>Tables\<close>

record Endpoint =
  Address :: string

record Route =
  Path :: string
  Methods :: "string set"

record ServiceRouting =
  SName :: string
  ClusterIP :: string
  SPort :: int
  Routes :: "Route list"
  Endpoints :: "Endpoint list"

record RoutingTable =
  Services :: "string \<rightharpoonup> ServiceRouting"
  pathIndex :: "string \<rightharpoonup> (string \<rightharpoonup> string)"
  vipIndex :: "(string \<rightharpoonup> string) option"

record Router =
  routingTable :: "RoutingTable option"

datatype config_error =
    ConfigNotFound
  | ServiceNameRequired nat
  | EndpointRequired nat
  | EndpointAddressRequired nat nat
  | DuplicateEndpoint string nat
  | RouteRequired nat
  | RoutePathRequired nat nat
  | MethodRequired nat nat
  | DuplicateService string

section \<open>Building the table\<close>

fun build_endpoints ::
  "nat \<Rightarrow> nat \<Rightarrow> string set \<Rightarrow> pb_Endpoint list \<Rightarrow> Endpoint list \<Rightarrow> config_error + Endpoint list" where
  "build_endpoints i j endpointSeen [] endpoints = Inr endpoints"
| "build_endpoints i j endpointSeen (ep # eps) endpoints =
     (let addr = ep_Address ep in
      if addr = '''' then Inl (EndpointAddressRequired i j)
      else if addr \<in> endpointSeen then Inl (DuplicateEndpoint addr i)
      else build_endpoints i (j + 1) (insert addr endpointSeen) eps (endpoints @ [\<lparr>Address = addr\<rparr>]))"

definition route_methods :: "string list \<Rightarrow> string set" where
  "route_methods ms = set (map ToUpper (filter (\<lambda>m. m \<noteq> '''') ms))"

fun build_routes :: "nat \<Rightarrow> nat \<Rightarrow> pb_Route list \<Rightarrow> Route list \<Rightarrow> config_error + Route list" where
  "build_routes i j [] routes = Inr routes"
| "build_routes i j (r # rs) routes =
     (if rt_Path r = '''' then Inl (RoutePathRequired i j)
      else let methods = route_methods (rt_Methods r) in
           if methods = {} then Inl (MethodRequired i j)
           else build_routes i (j + 1) rs (routes @ [\<lparr>Path = rt_Path r, Methods = methods\<rparr>]))"

definition build_service ::
  "nat \<Rightarrow> pb_Service \<Rightarrow> (string \<rightharpoonup> ServiceRouting) \<Rightarrow> config_error + (string \<rightharpoonup> ServiceRouting)" where
  "build_service i svc services =
     (let name = svc_Name svc in
      if name = '''' then Inl (ServiceNameRequired i)
      else if length (svc_Endpoints svc) = 0 then Inl (EndpointRequired i)
      else case build_endpoints i 0 {} (svc_Endpoints svc) [] of
             Inl e \<Rightarrow> Inl e
           | Inr endpoints \<Rightarrow>
               if length (svc_Routes svc) = 0 then Inl (RouteRequired i)
               else case build_routes i 0 (svc_Routes svc) [] of
                      Inl e \<Rightarrow> Inl e
                    | Inr routes \<Rightarrow>
                        if services name \<noteq> None then Inl (DuplicateService name)
                        else Inr (services(name \<mapsto>
                               \<lparr>SName = name, ClusterIP = svc_ClusterIp svc,
                                SPort = sint (svc_Port svc), Routes = routes,
                                Endpoints = endpoints\<rparr>)))"

fun build_services ::
  "nat \<Rightarrow> pb_Service list \<Rightarrow> (string \<rightharpoonup> ServiceRouting) \<Rightarrow>
   config_error + (string \<rightharpoonup> ServiceRouting)" where
  "build_services i [] services = Inr services"
| "build_services i (svc # svcs) services =
     (case build_service i svc services of
        Inl e \<Rightarrow> Inl e
      | Inr services' \<Rightarrow> build_services (i + 1) svcs services')"

definition add_route :: "string \<Rightarrow> Route \<Rightarrow> (string \<rightharpoonup> (string \<rightharpoonup> string)) \<Rightarrow> (string \<rightharpoonup> (string \<rightharpoonup> string))" where
  "add_route serviceName route index =
     (let inner = (case index (Path route) of None \<Rightarrow> Map.empty | Some m \<Rightarrow> m)
      in index(Path route \<mapsto> (\<lambda>meth. if meth \<in> Methods route then Some serviceName else inner meth)))"

definition buildPathIndex ::
  "string list \<Rightarrow> (string \<rightharpoonup> ServiceRouting) \<Rightarrow> (string \<rightharpoonup> (string \<rightharpoonup> string))" where
  "buildPathIndex order services =
     for_range order services
       (\<lambda>serviceName svc index. fold (add_route serviceName) (Routes svc) index) Map.empty"

definition buildRoutingTable :: "string list \<Rightarrow> pb_Config option \<Rightarrow> config_error + RoutingTable" where
  "buildRoutingTable order cfg =
     (case cfg of
        None \<Rightarrow> Inl ConfigNotFound
      | Some c \<Rightarrow>
          (case build_services 0 (cfg_Services c) Map.empty of
             Inl e \<Rightarrow> Inl e
           | Inr services \<Rightarrow>
               Inr \<lparr>Services = services, pathIndex = buildPathIndex order services, vipIndex = None\<rparr>))"

section \<open>The router\<close>

definition vip_key :: "string \<Rightarrow> int \<Rightarrow> string" where
  "vip_key ip port = ip @ '':'' @ itoa port"

definition buildVipIndex :: "string list \<Rightarrow> (string \<rightharpoonup> ServiceRouting) \<Rightarrow> (string \<rightharpoonup> string)" where
  "buildVipIndex order services =
     for_range order services
       (\<lambda>serviceName svc index.
          if ClusterIP svc \<noteq> '''' \<and> SPort svc > 0
          then index(vip_key (ClusterIP svc) (SPort svc) \<mapsto> serviceName) else index) Map.empty"

definition UpdateRoutes :: "string list \<Rightarrow> string list \<Rightarrow> RoutingTable \<Rightarrow> Router \<Rightarrow> Router" where
  "UpdateRoutes order1 order2 rt r =
     (let rt1 = rt\<lparr>pathIndex := buildPathIndex order1 (Services rt)\<rparr>;
          rt2 = rt1\<lparr>vipIndex := Some (buildVipIndex order2 (Services rt1))\<rparr>
      in r\<lparr>routingTable := Some rt2\<rparr>)"

datatype lookup_error = TableNotInitialized | NoServiceForVIP string | NoServiceForRoute | NilTable

definition FindServiceByVIP :: "Router \<Rightarrow> string \<Rightarrow> lookup_error + string" where
  "FindServiceByVIP r vip =
     (case routingTable r of
        None \<Rightarrow> Inl TableNotInitialized
      | Some rt \<Rightarrow>
          (case vipIndex rt of
             None \<Rightarrow> Inl TableNotInitialized
           | Some index \<Rightarrow>
               (case index vip of Some serviceName \<Rightarrow> Inr serviceName | None \<Rightarrow> Inl (NoServiceForVIP vip))))"

text \<open>
  \<open>FindService\<close> does not test the table for nil: the result \<open>NilTable\<close> is the nil
  dereference, a panic.
\<close>

definition FindService :: "Router \<Rightarrow> string \<Rightarrow> string \<Rightarrow> lookup_error + string" where
  "FindService r path meth =
     (case routingTable r of
        None \<Rightarrow> Inl NilTable
      | Some rt \<Rightarrow>
          (case pathIndex rt path of
             Some methods \<Rightarrow>
               (case methods meth of Some serviceName \<Rightarrow> Inr serviceName | None \<Rightarrow> Inl NoServiceForRoute)
           | None \<Rightarrow> Inl NoServiceForRoute))"

section \<open>Which configurations are accepted\<close>

definition endpoints_ok :: "pb_Endpoint list \<Rightarrow> bool" where
  "endpoints_ok eps \<longleftrightarrow> eps \<noteq> [] \<and> distinct (map ep_Address eps) \<and> '''' \<notin> ep_Address ` set eps"

definition routes_ok :: "pb_Route list \<Rightarrow> bool" where
  "routes_ok rs \<longleftrightarrow> rs \<noteq> [] \<and> (\<forall>r\<in>set rs. rt_Path r \<noteq> '''' \<and> (\<exists>m\<in>set (rt_Methods r). m \<noteq> ''''))"

definition service_ok :: "pb_Service \<Rightarrow> bool" where
  "service_ok s \<longleftrightarrow> svc_Name s \<noteq> '''' \<and> endpoints_ok (svc_Endpoints s) \<and> routes_ok (svc_Routes s)"

definition config_ok :: "pb_Config \<Rightarrow> bool" where
  "config_ok c \<longleftrightarrow> (\<forall>s\<in>set (cfg_Services c). service_ok s) \<and> distinct (map svc_Name (cfg_Services c))"

text \<open>The table entry that an accepted service becomes.\<close>

definition routing_of :: "pb_Service \<Rightarrow> ServiceRouting" where
  "routing_of s =
     \<lparr>SName = svc_Name s, ClusterIP = svc_ClusterIp s, SPort = sint (svc_Port s),
      Routes = map (\<lambda>r. \<lparr>Path = rt_Path r, Methods = route_methods (rt_Methods r)\<rparr>) (svc_Routes s),
      Endpoints = map (\<lambda>ep. \<lparr>Address = ep_Address ep\<rparr>) (svc_Endpoints s)\<rparr>"

lemma route_methods_empty: "route_methods ms = {} \<longleftrightarrow> \<not> (\<exists>m\<in>set ms. m \<noteq> '''')"
  by (auto simp: route_methods_def filter_empty_conv)

lemma build_endpoints_Inr:
  "build_endpoints i j seen eps acc = Inr out \<longleftrightarrow>
     distinct (map ep_Address eps) \<and> '''' \<notin> ep_Address ` set eps \<and> seen \<inter> ep_Address ` set eps = {} \<and>
     out = acc @ map (\<lambda>ep. \<lparr>Address = ep_Address ep\<rparr>) eps"
  by (induction i j seen eps acc rule: build_endpoints.induct) (auto simp: Let_def)

lemma build_routes_Inr:
  "build_routes i j rs acc = Inr out \<longleftrightarrow>
     (\<forall>r\<in>set rs. rt_Path r \<noteq> '''' \<and> (\<exists>m\<in>set (rt_Methods r). m \<noteq> '''')) \<and>
     out = acc @ map (\<lambda>r. \<lparr>Path = rt_Path r, Methods = route_methods (rt_Methods r)\<rparr>) rs"
  by (induction i j rs acc rule: build_routes.induct) (auto simp: Let_def route_methods_empty)

lemma build_service_Inr:
  "build_service i s services = Inr out \<longleftrightarrow>
     service_ok s \<and> services (svc_Name s) = None \<and> out = services(svc_Name s \<mapsto> routing_of s)"
proof (cases "endpoints_ok (svc_Endpoints s) \<and> routes_ok (svc_Routes s)")
  case True
  then have "build_endpoints i 0 {} (svc_Endpoints s) [] = Inr (Endpoints (routing_of s))"
    "build_routes i 0 (svc_Routes s) [] = Inr (Routes (routing_of s))"
    by (simp_all add: build_endpoints_Inr build_routes_Inr endpoints_ok_def routes_ok_def routing_of_def)
  with True show ?thesis
    by (auto simp: build_service_def Let_def service_ok_def endpoints_ok_def routes_ok_def routing_of_def)
next
  case False
  have "build_service i s services \<noteq> Inr out"
    using False build_endpoints_Inr [of i 0 "{}" "svc_Endpoints s" "[]"]
      build_routes_Inr [of i 0 "svc_Routes s" "[]"]
    by (auto simp: build_service_def Let_def endpoints_ok_def routes_ok_def split: sum.split)
  with False show ?thesis by (auto simp: service_ok_def)
qed

definition services_of :: "pb_Service list \<Rightarrow> string \<rightharpoonup> ServiceRouting" where
  "services_of svcs = map_of (map (\<lambda>s. (svc_Name s, routing_of s)) svcs)"

lemma services_of_Some:
  "distinct (map svc_Name svcs) \<Longrightarrow>
     services_of svcs n = Some sr \<longleftrightarrow> (\<exists>s\<in>set svcs. svc_Name s = n \<and> sr = routing_of s)"
  by (force simp: services_of_def o_def intro!: map_of_eq_Some_iff [THEN iffD2] dest!: map_of_SomeD)

lemma build_services_Inr:
  "build_services i svcs services = Inr out \<longleftrightarrow>
     (\<forall>s\<in>set svcs. service_ok s \<and> services (svc_Name s) = None) \<and> distinct (map svc_Name svcs) \<and>
     out = services ++ services_of svcs"
proof (induction svcs arbitrary: i services)
  case (Cons s svcs)
  have add: "services(svc_Name s \<mapsto> routing_of s) ++ services_of svcs = services ++ services_of (s # svcs)"
    if "svc_Name s \<notin> svc_Name ` set svcs"
    using that by (auto simp: services_of_def map_add_def fun_eq_iff split: option.split
        dest!: map_of_SomeD)
  show ?case
  proof (cases "build_service i s services")
    case (Inl e)
    then have "\<not> (service_ok s \<and> services (svc_Name s) = None)"
      using build_service_Inr [of i s services "services(svc_Name s \<mapsto> routing_of s)"] by auto
    with Inl show ?thesis by auto
  next
    case (Inr services')
    then have s: "service_ok s" "services (svc_Name s) = None"
        "services' = services(svc_Name s \<mapsto> routing_of s)"
      by (simp_all add: build_service_Inr)
    have step: "build_services i (s # svcs) services = Inr out \<longleftrightarrow>
        (\<forall>t\<in>set svcs. service_ok t \<and> services' (svc_Name t) = None) \<and> distinct (map svc_Name svcs) \<and>
        out = services' ++ services_of svcs"
      using Inr Cons.IH [of "i + 1" services'] by simp
    have new: "services' (svc_Name t) = None \<longleftrightarrow> svc_Name t \<noteq> svc_Name s \<and> services (svc_Name t) = None"
      for t by (simp add: s(3))
    show ?thesis
    proof (cases "svc_Name s \<in> svc_Name ` set svcs")
      case False
      have "services' ++ services_of svcs = services ++ services_of (s # svcs)"
        using add [OF False] s(3) by simp
      then show ?thesis unfolding step new using False s(1,2) by (auto, metis image_eqI)
    next
      case True
      then have "\<not> (\<forall>t\<in>set svcs. service_ok t \<and> svc_Name t \<noteq> svc_Name s \<and> services (svc_Name t) = None)"
        by auto
      moreover have "\<not> distinct (map svc_Name (s # svcs))" using True by simp
      ultimately show ?thesis unfolding step new by blast
    qed
  qed
qed (auto simp: services_of_def)

lemma buildRoutingTable_Inr:
  "buildRoutingTable order (Some c) = Inr rt \<longleftrightarrow>
     config_ok c \<and>
     rt = \<lparr>Services = services_of (cfg_Services c),
           pathIndex = buildPathIndex order (services_of (cfg_Services c)), vipIndex = None\<rparr>"
proof (cases "build_services 0 (cfg_Services c) Map.empty")
  case (Inl e)
  then have "\<not> config_ok c"
    using build_services_Inr [of 0 "cfg_Services c" Map.empty] by (auto simp: config_ok_def)
  with Inl show ?thesis by (simp add: buildRoutingTable_def)
next
  case (Inr services)
  then show ?thesis using build_services_Inr [of 0 "cfg_Services c" Map.empty services]
    by (auto simp: buildRoutingTable_def config_ok_def)
qed

text \<open>
  C9. A configuration is accepted exactly when every service has a name, at least one
  endpoint, pairwise different non-empty endpoint addresses and at least one route, every
  route has a path and at least one non-empty method, and the service names are pairwise
  different; the table then holds exactly the configured services, with upper-case methods.
\<close>

theorem buildRoutingTable_accepts:
  "buildRoutingTable order (Some c) = Inr rt \<longleftrightarrow>
     config_ok c \<and>
     rt = \<lparr>Services = services_of (cfg_Services c),
           pathIndex = buildPathIndex order (services_of (cfg_Services c)), vipIndex = None\<rparr>"
  by (rule buildRoutingTable_Inr)

section \<open>Errors name a real defect\<close>

text \<open>What a reported error says about the configuration.\<close>

definition defective :: "pb_Config \<Rightarrow> config_error \<Rightarrow> bool" where
  "defective c e =
     (let svcs = cfg_Services c in
      case e of
        ConfigNotFound \<Rightarrow> False
      | ServiceNameRequired i \<Rightarrow> i < length svcs \<and> svc_Name (svcs ! i) = ''''
      | EndpointRequired i \<Rightarrow> i < length svcs \<and> svc_Endpoints (svcs ! i) = []
      | EndpointAddressRequired i j \<Rightarrow>
          i < length svcs \<and> j < length (svc_Endpoints (svcs ! i)) \<and>
          ep_Address (svc_Endpoints (svcs ! i) ! j) = ''''
      | DuplicateEndpoint a i \<Rightarrow>
          i < length svcs \<and> a \<in> set (map ep_Address (svc_Endpoints (svcs ! i))) \<and>
          \<not> distinct (map ep_Address (svc_Endpoints (svcs ! i)))
      | RouteRequired i \<Rightarrow> i < length svcs \<and> svc_Routes (svcs ! i) = []
      | RoutePathRequired i j \<Rightarrow>
          i < length svcs \<and> j < length (svc_Routes (svcs ! i)) \<and>
          rt_Path (svc_Routes (svcs ! i) ! j) = ''''
      | MethodRequired i j \<Rightarrow>
          i < length svcs \<and> j < length (svc_Routes (svcs ! i)) \<and>
          (\<forall>m\<in>set (rt_Methods (svc_Routes (svcs ! i) ! j)). m = '''')
      | DuplicateService n \<Rightarrow> n \<in> set (map svc_Name svcs) \<and> \<not> distinct (map svc_Name svcs))"

lemma build_endpoints_Inl:
  assumes "build_endpoints i (length pre) (ep_Address ` set pre) eps acc = Inl e"
  shows "(\<exists>j<length (pre @ eps). e = EndpointAddressRequired i j \<and> ep_Address ((pre @ eps) ! j) = '''') \<or>
    (\<exists>a\<in>set (map ep_Address (pre @ eps)). e = DuplicateEndpoint a i \<and>
       \<not> distinct (map ep_Address (pre @ eps)))"
  using assms
proof (induction eps arbitrary: pre acc)
  case (Cons ep eps)
  show ?case
  proof (cases "ep_Address ep = '''' \<or> ep_Address ep \<in> ep_Address ` set pre")
    case True
    then show ?thesis using Cons.prems by (auto simp: Let_def nth_append split: if_splits)
  next
    case False
    then have "build_endpoints i (length (pre @ [ep])) (ep_Address ` set (pre @ [ep])) eps
        (acc @ [\<lparr>Address = ep_Address ep\<rparr>]) = Inl e"
      using Cons.prems by (simp add: Let_def)
    from Cons.IH [OF this] show ?thesis by simp
  qed
qed simp

lemma build_routes_Inl:
  assumes "build_routes i (length pre) rs acc = Inl e"
  shows "\<exists>j<length (pre @ rs). (e = RoutePathRequired i j \<and> rt_Path ((pre @ rs) ! j) = '''') \<or>
    (e = MethodRequired i j \<and> (\<forall>m\<in>set (rt_Methods ((pre @ rs) ! j)). m = ''''))"
  using assms
proof (induction rs arbitrary: pre acc)
  case (Cons r rs)
  show ?case
  proof (cases "rt_Path r = '''' \<or> route_methods (rt_Methods r) = {}")
    case True
    then show ?thesis using Cons.prems
      by (intro exI [of _ "length pre"])
         (auto simp: Let_def nth_append route_methods_empty split: if_splits)
  next
    case False
    then have "build_routes i (length (pre @ [r])) rs
        (acc @ [\<lparr>Path = rt_Path r, Methods = route_methods (rt_Methods r)\<rparr>]) = Inl e"
      using Cons.prems by (simp add: Let_def)
    from Cons.IH [OF this] show ?thesis by simp
  qed
qed simp

lemma build_service_Inl:
  assumes "build_service i s services = Inl e" "i < length (cfg_Services c)" "cfg_Services c ! i = s"
    and "services (svc_Name s) \<noteq> None \<Longrightarrow>
      svc_Name s \<in> set (map svc_Name (cfg_Services c)) \<and> \<not> distinct (map svc_Name (cfg_Services c))"
  shows "defective c e"
  using assms build_endpoints_Inl [of i "[]" "svc_Endpoints s" "[]"]
    build_routes_Inl [of i "[]" "svc_Routes s" "[]"]
  by (auto simp: build_service_def Let_def defective_def split: if_splits sum.splits)

lemma build_services_Inl:
  assumes "build_services (length pre) svcs (services_of pre) = Inl e" "cfg_Services c = pre @ svcs"
    "distinct (map svc_Name pre)"
  shows "defective c e"
  using assms
proof (induction svcs arbitrary: pre)
  case (Cons s svcs)
  have dom: "services_of pre (svc_Name s) \<noteq> None \<longleftrightarrow> svc_Name s \<in> svc_Name ` set pre"
    by (auto simp: services_of_def map_of_eq_None_iff image_image)
  show ?case
  proof (cases "build_service (length pre) s (services_of pre)")
    case (Inl e')
    with Cons.prems have "e' = e" by simp
    with Inl show ?thesis
      using Cons.prems(2) dom by (intro build_service_Inl [of "length pre" s "services_of pre"]) auto
  next
    case (Inr services')
    then have *: "services_of pre (svc_Name s) = None"
        "services' = (services_of pre)(svc_Name s \<mapsto> routing_of s)"
      by (simp_all add: build_service_Inr)
    have "services' = services_of (pre @ [s])"
      using * by (auto simp: services_of_def map_add_def split: option.split)
    then have "build_services (length (pre @ [s])) svcs (services_of (pre @ [s])) = Inl e"
      using Cons.prems(1) Inr by simp
    then show ?thesis using Cons.prems(2,3) * dom by (intro Cons.IH [of "pre @ [s]"]) auto
  qed
qed simp

text \<open>
  When a configuration is rejected, the error points at a defect that is really there:
  the indices are in range and the named service, endpoint or route has the reported fault.
\<close>

theorem buildRoutingTable_error_accurate:
  assumes "buildRoutingTable order (Some c) = Inl e"
  shows "defective c e \<and> \<not> config_ok c"
proof
  have b: "build_services (length []) (cfg_Services c) (services_of []) = Inl e"
    using assms by (auto simp: buildRoutingTable_def services_of_def split: sum.splits)
  show "defective c e" by (rule build_services_Inl [OF b]) simp_all
  show "\<not> config_ok c"
    using b build_services_Inr [of 0 "cfg_Services c" "services_of []"]
    by (auto simp: config_ok_def services_of_def)
qed

definition example_service :: "string \<Rightarrow> string list \<Rightarrow> pb_Service" where
  "example_service n addrs =
     \<lparr>svc_Name = n, svc_Routes = [\<lparr>rt_Path = ''/'' @ n, rt_Methods = [''get'']\<rparr>],
      svc_Endpoints = map (\<lambda>a. \<lparr>ep_Address = a\<rparr>) addrs, svc_ClusterIp = ''10.0.0.9'', svc_Port = 80\<rparr>"

definition example_config :: "pb_Service list \<Rightarrow> pb_Config" where
  "example_config svcs =
     \<lparr>cfg_Services = svcs,
      cfg_ProxyConfig = Some \<lparr>pc_Port = 8089, pc_MetricsPort = 9090, pc_HealthCheckIntervalSeconds = 10\<rparr>,
      cfg_LastUpdated = 0, cfg_Version = ''v1''\<rparr>"

theorem buildRoutingTable_error_accurate_witness:
  "defective (example_config [example_service ''a'' [''x'', ''x'']]) (DuplicateEndpoint ''x'' 0)"
  by (rule buildRoutingTable_error_accurate [of "[]", THEN conjunct1])
     (simp add: buildRoutingTable_def example_config_def example_service_def build_service_def)

section \<open>The path index\<close>

definition path_lookup :: "(string \<rightharpoonup> (string \<rightharpoonup> string)) \<Rightarrow> string \<Rightarrow> string \<Rightarrow> string option" where
  "path_lookup index path meth = (case index path of None \<Rightarrow> None | Some methods \<Rightarrow> methods meth)"

text \<open>A service serves a request if one of its routes has the path and the method.\<close>

definition serves :: "ServiceRouting \<Rightarrow> string \<Rightarrow> string \<Rightarrow> bool" where
  "serves svc path meth \<longleftrightarrow> (\<exists>r\<in>set (Routes svc). Path r = path \<and> meth \<in> Methods r)"

lemma path_lookup_add_route:
  "path_lookup (add_route n r index) path meth =
     (if Path r = path \<and> meth \<in> Methods r then Some n else path_lookup index path meth)"
  by (auto simp: path_lookup_def add_route_def Let_def split: option.split)

lemma path_lookup_fold_routes:
  "path_lookup (fold (add_route n) rs index) path meth =
     (if \<exists>r\<in>set rs. Path r = path \<and> meth \<in> Methods r then Some n else path_lookup index path meth)"
  by (induction rs arbitrary: index) (auto simp: path_lookup_add_route)

text \<open>
  The index holds the last service of the iteration order that serves a request; an order
  that meets only one such service leaves no choice.
\<close>

lemma path_lookup_for_range:
  "path_lookup (for_range ks services (\<lambda>n svc index. fold (add_route n) (Routes svc) index) index) path meth =
     (case find (\<lambda>n. \<exists>svc. services n = Some svc \<and> serves svc path meth) (rev ks) of
        Some n \<Rightarrow> Some n | None \<Rightarrow> path_lookup index path meth)"
proof (induction ks arbitrary: index rule: rev_induct)
  case (snoc k ks)
  then show ?case
    by (cases "services k") (auto simp: for_range_append path_lookup_fold_routes serves_def)
qed simp

lemma path_lookup_buildPathIndex:
  "path_lookup (buildPathIndex ks services) path meth =
     find (\<lambda>n. \<exists>svc. services n = Some svc \<and> serves svc path meth) (rev ks)"
  unfolding buildPathIndex_def path_lookup_for_range by (simp add: path_lookup_def split: option.split)

lemma FindService_UpdateRoutes:
  "FindService (UpdateRoutes o1 o2 rt r) path meth =
     (case find (\<lambda>n. \<exists>svc. Services rt n = Some svc \<and> serves svc path meth) (rev o1) of
        Some n \<Rightarrow> Inr n | None \<Rightarrow> Inl NoServiceForRoute)"
proof -
  have "FindService (UpdateRoutes o1 o2 rt r) path meth =
      (case path_lookup (buildPathIndex o1 (Services rt)) path meth of
         Some n \<Rightarrow> Inr n | None \<Rightarrow> Inl NoServiceForRoute)"
    by (auto simp: FindService_def UpdateRoutes_def Let_def path_lookup_def split: option.split)
  then show ?thesis by (simp only: path_lookup_buildPathIndex)
qed

text \<open>
  C10. After \<open>UpdateRoutes\<close>, for every iteration order of the service map: a route lookup only
  returns a service of the table that has a route with the requested path and method; it
  succeeds whenever there is such a service; and if only one service serves the request, the
  lookup returns that service in every order.
\<close>

theorem FindService_correct:
  assumes "range_order (Services rt) o1" "R = UpdateRoutes o1 o2 rt r"
  shows "(\<forall>n. FindService R path meth = Inr n \<longrightarrow>
      (\<exists>svc. Services rt n = Some svc \<and> serves svc path meth)) \<and>
    ((\<exists>n svc. Services rt n = Some svc \<and> serves svc path meth) \<longleftrightarrow>
      (\<exists>n. FindService R path meth = Inr n)) \<and>
    (\<forall>n svc. Services rt n = Some svc \<and> serves svc path meth \<and>
        (\<forall>n' svc'. Services rt n' = Some svc' \<and> serves svc' path meth \<longrightarrow> n' = n) \<longrightarrow>
      FindService R path meth = Inr n)"
proof -
  let ?P = "\<lambda>n. \<exists>svc. Services rt n = Some svc \<and> serves svc path meth"
  have F: "FindService R path meth =
      (case find ?P (rev o1) of Some n \<Rightarrow> Inr n | None \<Rightarrow> Inl NoServiceForRoute)"
    by (simp add: assms(2) FindService_UpdateRoutes)
  have mem: "?P n \<Longrightarrow> n \<in> set (rev o1)" for n
    using assms(1) by (auto simp: range_order_def)
  have found: "FindService R path meth = Inr n \<longleftrightarrow> find ?P (rev o1) = Some n" for n
    unfolding F by (cases "find ?P (rev o1)") simp_all
  show ?thesis
  proof (intro conjI)
    show "\<forall>n. FindService R path meth = Inr n \<longrightarrow> ?P n"
      unfolding found by (blast dest: find_SomeD)
    show "(\<exists>n svc. Services rt n = Some svc \<and> serves svc path meth) \<longleftrightarrow>
        (\<exists>n. FindService R path meth = Inr n)"
      unfolding found using mem find_exists [of _ "rev o1" ?P] find_SomeD [of ?P "rev o1"] by blast
    have "find ?P (rev o1) = Some n" if "?P n" "\<forall>n'. ?P n' \<longrightarrow> n' = n" for n
      using mem [OF that(1)] that by (intro find_uniq) blast+
    then show "\<forall>n svc. Services rt n = Some svc \<and> serves svc path meth \<and>
        (\<forall>n' svc'. Services rt n' = Some svc' \<and> serves svc' path meth \<longrightarrow> n' = n) \<longrightarrow>
      FindService R path meth = Inr n"
      unfolding found by blast
  qed
qed

lemma FindService_unique:
  assumes "range_order (Services rt) o1" "Services rt n = Some svc" "serves svc path meth"
    "\<And>n' svc'. Services rt n' = Some svc' \<Longrightarrow> serves svc' path meth \<Longrightarrow> n' = n"
  shows "FindService (UpdateRoutes o1 o2 rt r) path meth = Inr n"
proof -
  have "n \<in> set (rev o1)" using assms(1,2) by (auto simp: range_order_def)
  then have "find (\<lambda>n. \<exists>svc. Services rt n = Some svc \<and> serves svc path meth) (rev o1) = Some n"
    using assms(2-4) by (intro find_uniq) blast+
  then show ?thesis by (simp add: FindService_UpdateRoutes)
qed

section \<open>The virtual-IP index\<close>

lemma vip_key_inj: "vip_key ip port = vip_key ip' port' \<longleftrightarrow> ip = ip' \<and> port = port'"
  using join_last_inj [of ip "CHR '':''" "itoa port" ip' "itoa port'"] colon_notin_itoa
  by (auto simp: vip_key_def)

definition has_vip :: "ServiceRouting \<Rightarrow> string \<Rightarrow> bool" where
  "has_vip svc vip \<longleftrightarrow> ClusterIP svc \<noteq> '''' \<and> SPort svc > 0 \<and> vip = vip_key (ClusterIP svc) (SPort svc)"

lemma buildVipIndex_eq:
  "buildVipIndex ks services vip = find (\<lambda>n. \<exists>svc. services n = Some svc \<and> has_vip svc vip) (rev ks)"
proof -
  have "for_range ks services
       (\<lambda>serviceName svc index.
          if ClusterIP svc \<noteq> '''' \<and> SPort svc > 0
          then index(vip_key (ClusterIP svc) (SPort svc) \<mapsto> serviceName) else index) index vip =
     (case find (\<lambda>n. \<exists>svc. services n = Some svc \<and> has_vip svc vip) (rev ks) of
        Some n \<Rightarrow> Some n | None \<Rightarrow> index vip)" for index
  proof (induction ks arbitrary: index rule: rev_induct)
    case (snoc k ks)
    then show ?case by (cases "services k") (auto simp: for_range_append has_vip_def)
  qed simp
  then show ?thesis by (simp add: buildVipIndex_def split: option.split)
qed

lemma FindServiceByVIP_own:
  assumes "range_order (Services rt) o2" "Services rt n = Some svc" "has_vip svc vip"
    "\<And>n' svc'. Services rt n' = Some svc' \<Longrightarrow> has_vip svc' vip \<Longrightarrow> n' = n"
  shows "FindServiceByVIP (UpdateRoutes o1 o2 rt r) vip = Inr n"
proof -
  have "n \<in> set (rev o2)" using assms(1,2) by (auto simp: range_order_def)
  then have "find (\<lambda>n. \<exists>svc. Services rt n = Some svc \<and> has_vip svc vip) (rev o2) = Some n"
    using assms(2-4) by (intro find_uniq) blast+
  then show ?thesis by (simp add: FindServiceByVIP_def UpdateRoutes_def Let_def buildVipIndex_eq)
qed

lemma FindServiceByVIP_unique:
  assumes "range_order (Services rt) o2"
    and "\<And>n n' svc svc'. Services rt n = Some svc \<Longrightarrow> Services rt n' = Some svc' \<Longrightarrow>
      ClusterIP svc = ClusterIP svc' \<Longrightarrow> SPort svc = SPort svc' \<Longrightarrow> ClusterIP svc \<noteq> '''' \<Longrightarrow> n = n'"
  shows "(\<forall>n svc. Services rt n = Some svc \<and> ClusterIP svc \<noteq> '''' \<and> SPort svc > 0 \<longrightarrow>
      FindServiceByVIP (UpdateRoutes o1 o2 rt r) (vip_key (ClusterIP svc) (SPort svc)) = Inr n) \<and>
    ((\<nexists>n svc. Services rt n = Some svc \<and> has_vip svc vip) \<longrightarrow>
      FindServiceByVIP (UpdateRoutes o1 o2 rt r) vip = Inl (NoServiceForVIP vip))"
proof -
  let ?P = "\<lambda>vip n. \<exists>svc. Services rt n = Some svc \<and> has_vip svc vip"
  have F: "FindServiceByVIP (UpdateRoutes o1 o2 rt r) v =
      (case find (?P v) (rev o2) of Some n \<Rightarrow> Inr n | None \<Rightarrow> Inl (NoServiceForVIP v))" for v
    by (auto simp: FindServiceByVIP_def UpdateRoutes_def Let_def buildVipIndex_eq)
  have "find (?P (vip_key (ClusterIP svc) (SPort svc))) (rev o2) = Some n"
    if n: "Services rt n = Some svc" "ClusterIP svc \<noteq> ''''" "SPort svc > 0" for n svc
  proof (rule find_uniq)
    show "n \<in> set (rev o2)" using assms(1) n(1) by (auto simp: range_order_def)
    show "?P (vip_key (ClusterIP svc) (SPort svc)) n" using n by (auto simp: has_vip_def)
    show "n' = n" if "?P (vip_key (ClusterIP svc) (SPort svc)) n'" for n'
      using that n assms(2) by (fastforce simp: has_vip_def vip_key_inj)
  qed
  moreover have "find (?P vip) (rev o2) = None" if "\<nexists>n svc. Services rt n = Some svc \<and> has_vip svc vip"
    using that by (auto simp: find_None_iff)
  ultimately show ?thesis unfolding F by auto
qed

text \<open>
  After \<open>UpdateRoutes\<close>, for every iteration order: if no two services share their cluster
  IP and port, the original destination \<open>ip:port\<close> of a connection finds exactly the service
  with that IP and port, and any other destination is reported as unknown.
\<close>

theorem FindServiceByVIP_correct:
  assumes "range_order (Services rt) o2"
    and "\<And>n n' svc svc'. Services rt n = Some svc \<Longrightarrow> Services rt n' = Some svc' \<Longrightarrow>
      ClusterIP svc = ClusterIP svc' \<Longrightarrow> SPort svc = SPort svc' \<Longrightarrow> ClusterIP svc \<noteq> '''' \<Longrightarrow> n = n'"
  shows "(\<forall>n svc. Services rt n = Some svc \<and> ClusterIP svc \<noteq> '''' \<and> SPort svc > 0 \<longrightarrow>
      FindServiceByVIP (UpdateRoutes o1 o2 rt r) (vip_key (ClusterIP svc) (SPort svc)) = Inr n) \<and>
    ((\<nexists>n svc. Services rt n = Some svc \<and> has_vip svc vip) \<longrightarrow>
      FindServiceByVIP (UpdateRoutes o1 o2 rt r) vip = Inl (NoServiceForVIP vip))"
  by (rule FindServiceByVIP_unique [OF assms])

section \<open>Witnesses\<close>

definition example_table :: RoutingTable where
  "example_table =
     \<lparr>Services = services_of [example_service ''a'' [''x''], (example_service ''b'' [''y''])\<lparr>svc_Port := 81\<rparr>],
      pathIndex = Map.empty, vipIndex = None\<rparr>"

lemma example_table_order: "range_order (Services example_table) [''b'', ''a'']"
  by (auto simp: range_order_def example_table_def services_of_def example_service_def)

theorem FindService_correct_witness:
  "FindService (UpdateRoutes [''b'', ''a''] [] example_table \<lparr>routingTable = None\<rparr>) ''/a'' ''GET'' = Inr ''a''"
proof -
  let ?R = "UpdateRoutes [''b'', ''a''] [] example_table \<lparr>routingTable = None\<rparr>"
  have methods: "route_methods [''get''] = {''GET''}" by code_simp
  have "Services example_table n = Some svc \<and> serves svc ''/a'' ''GET'' \<longleftrightarrow>
      n = ''a'' \<and> svc = routing_of (example_service ''a'' [''x''])" for n svc
    by (auto simp: example_table_def services_of_def example_service_def serves_def routing_of_def
        methods split: if_splits)
  with FindService_correct [OF example_table_order refl, of "[]" "\<lparr>routingTable = None\<rparr>" "''/a''" "''GET''"]
  show ?thesis by simp
qed

theorem FindServiceByVIP_correct_witness:
  "FindServiceByVIP (UpdateRoutes [] [''b'', ''a''] example_table \<lparr>routingTable = None\<rparr>) ''10.0.0.9:80'' = Inr ''a''"
proof -
  have s: "Services example_table n = Some svc \<longleftrightarrow>
      n = ''a'' \<and> svc = routing_of (example_service ''a'' [''x'']) \<or>
      n = ''b'' \<and> svc = routing_of ((example_service ''b'' [''y''])\<lparr>svc_Port := 81\<rparr>)" for n svc
    by (auto simp: example_table_def services_of_def example_service_def split: if_splits)
  have key: "vip_key ''10.0.0.9'' 80 = ''10.0.0.9:80''" by code_simp
  let ?R = "UpdateRoutes [] [''b'', ''a''] example_table \<lparr>routingTable = None\<rparr>"
  have "\<forall>n svc. Services example_table n = Some svc \<and> ClusterIP svc \<noteq> '''' \<and> SPort svc > 0 \<longrightarrow>
      FindServiceByVIP ?R (vip_key (ClusterIP svc) (SPort svc)) = Inr n"
    by (rule FindServiceByVIP_correct [THEN conjunct1, OF example_table_order])
       (auto simp: s routing_of_def example_service_def)
  from this [rule_format, of "''a''" "routing_of (example_service ''a'' [''x''])"]
  have "FindServiceByVIP ?R (vip_key ''10.0.0.9'' 80) = Inr ''a''"
    by (simp add: s) (simp add: routing_of_def example_service_def)
  then show ?thesis by (simp add: key)
qed

end
