(* ===== verification/Data_Plane.thy ===== *)
theory Data_Plane
  imports Load_Balancer Health_Check Routing
begin

text \<open>
  \<open>pkg/proxy/dataplane.go\<close>: the state of a proxy and the handler that applies a received
  configuration to it, and the client that receives configurations. The store of backends
  (\<open>Backend_Pool\<close>) belongs to the state from the start; the flag \<open>BackendPool\<close> says whether
  the pool pointer is set. \<open>url.Parse\<close> is the parameter \<open>parse\<close>; the four iteration orders of
  the service map that \<open>HandleConfig\<close> runs through are its list arguments.
\<close>

section \<open>State\<close>

record ProxyState =
  LastAppliedConfig :: "pb_Config option"
  LastAppliedVersion :: string
  ps_routingTable :: "RoutingTable option"
  store :: pool
  BackendPool :: bool
  ps_LoadBalancer :: "LoadBalancer option"
  ps_Health :: "health_sys option"
  ps_Router :: "Router option"

definition NewProxyState :: ProxyState where
  "NewProxyState =
     \<lparr>LastAppliedConfig = None, LastAppliedVersion = '''', ps_routingTable = None,
      store = empty_pool, BackendPool = False, ps_LoadBalancer = None, ps_Health = None,
      ps_Router = Some \<lparr>routingTable =
        Some \<lparr>Services = Map.empty, pathIndex = Map.empty, vipIndex = None\<rparr>\<rparr>\<rparr>"

section \<open>Creating backends\<close>

datatype create_error = NilRoutingTable | InvalidEndpoint string string | NoValidServices

definition alloc :: "Backend \<Rightarrow> pool \<Rightarrow> bref \<times> pool" where
  "alloc b p = (next_ref p, p\<lparr>heap := (heap p)(next_ref p := b), next_ref := next_ref p + 1\<rparr>)"

definition endpoint_url :: "string \<Rightarrow> string" where
  "endpoint_url address =
     (if \<not> HasPrefix address ''http://'' \<and> \<not> HasPrefix address ''https://''
      then ''http://'' @ address else address)"

definition backend_name :: "string \<Rightarrow> nat \<Rightarrow> string" where
  "backend_name serviceName i = serviceName @ ''-'' @ itoa (int i)"

fun create_endpoints ::
  "(string \<Rightarrow> URL option) \<Rightarrow> string \<Rightarrow> nat \<Rightarrow> Endpoint list \<Rightarrow> bref list \<Rightarrow> pool \<Rightarrow>
   (create_error + bref list) \<times> pool" where
  "create_endpoints parse serviceName i [] backends p = (Inr backends, p)"
| "create_endpoints parse serviceName i (endpoint # endpoints) backends p =
     (if Address endpoint = '''' then create_endpoints parse serviceName (i + 1) endpoints backends p
      else case parse (endpoint_url (Address endpoint)) of
             None \<Rightarrow> (Inl (InvalidEndpoint (Address endpoint) serviceName), p)
           | Some u \<Rightarrow>
               let (bk, p') = alloc (fresh_backend (backend_name serviceName i) u) p
               in create_endpoints parse serviceName (i + 1) endpoints (backends @ [bk]) p')"

fun create_services ::
  "(string \<Rightarrow> URL option) \<Rightarrow> string list \<Rightarrow> (string \<rightharpoonup> ServiceRouting) \<Rightarrow> (string \<rightharpoonup> bref list) \<Rightarrow> pool \<Rightarrow>
   (create_error + (string \<rightharpoonup> bref list)) \<times> pool" where
  "create_services parse [] table services p = (Inr services, p)"
| "create_services parse (serviceName # order) table services p =
     (case table serviceName of
        None \<Rightarrow> create_services parse order table services p
      | Some svc \<Rightarrow>
          if length (Endpoints svc) = 0 then create_services parse order table services p
          else case create_endpoints parse serviceName 0 (Endpoints svc) [] p of
                 (Inl e, p') \<Rightarrow> (Inl e, p')
               | (Inr backends, p') \<Rightarrow>
                   create_services parse order table
                     (if length backends > 0 then services(serviceName \<mapsto> backends) else services) p')"

definition CreateBackends ::
  "(string \<Rightarrow> URL option) \<Rightarrow> string list \<Rightarrow> RoutingTable option \<Rightarrow> pool \<Rightarrow>
   (create_error + (string \<rightharpoonup> bref list)) \<times> pool" where
  "CreateBackends parse order rt p =
     (case rt of
        None \<Rightarrow> (Inl NilRoutingTable, p)
      | Some t \<Rightarrow>
          (case create_services parse order (Services t) Map.empty p of
             (Inl e, p') \<Rightarrow> (Inl e, p')
           | (Inr services, p') \<Rightarrow>
               if map_len order services = 0 then (Inl NoValidServices, p') else (Inr services, p')))"

section \<open>Applying a configuration\<close>

text \<open>
  What becomes of a configuration. A configuration without \<open>ProxyConfig\<close> makes the handler
  dereference nil when it reads the check interval, after the router and the pool were
  updated; \<open>Panicked\<close> is that outcome.
\<close>

datatype handle_result =
    ConfigRejected config_error
  | BackendsRejected create_error
  | Panicked
  | Applied

definition NewBackendPool :: "(string \<rightharpoonup> bref list) \<Rightarrow> pool \<Rightarrow> pool" where
  "NewBackendPool backends p = p\<lparr>Backends := backends\<rparr>"

definition seconds :: "int32 \<Rightarrow> duration" where
  "seconds n = word_of_int (sint n) * Second"

definition update_health :: "duration \<Rightarrow> health_sys option \<Rightarrow> health_sys option" where
  "update_health newInterval h =
     (case h of
        None \<Rightarrow> Some (go_Check (NewHealthCheck newInterval))
      | Some hs \<Rightarrow>
          if newInterval \<noteq> GetHealthCheckInterval (hc hs) then Some (Restart newInterval hs) else Some hs)"

definition HandleConfig ::
  "(string \<Rightarrow> URL option) \<Rightarrow> string list \<Rightarrow> string list \<Rightarrow> string list \<Rightarrow> string list \<Rightarrow>
   pb_Config option \<Rightarrow> ProxyState \<Rightarrow> handle_result \<times> ProxyState" where
  "HandleConfig parse o1 o2 o3 o4 cfg ps =
     (case buildRoutingTable o1 cfg of
        Inl e \<Rightarrow> (ConfigRejected e, ps)
      | Inr rt \<Rightarrow>
          (case CreateBackends parse o2 (Some rt) (store ps) of
             (Inl e, st) \<Rightarrow> (BackendsRejected e, ps\<lparr>store := st\<rparr>)
           | (Inr backends, st) \<Rightarrow>
               let c = the cfg;
                   router = (case ps_Router ps of None \<Rightarrow> \<lparr>routingTable = None\<rparr> | Some r \<Rightarrow> r);
                   router' = UpdateRoutes o3 o4 rt router;
                   ps1 = ps\<lparr>ps_Router := Some router'\<rparr>;
                   ps2 = (if \<not> BackendPool ps1
                          then ps1\<lparr>BackendPool := True, store := NewBackendPool backends st\<rparr>
                          else ps1\<lparr>store := UpdateBackends st backends\<rparr>);
                   ps3 = (if ps_LoadBalancer ps2 = None
                          then ps2\<lparr>ps_LoadBalancer := Some (NewLoadBalancer ''round-robin'')\<rparr> else ps2)
               in (case cfg_ProxyConfig c of
                     None \<Rightarrow> (Panicked, ps3)
                   | Some pc \<Rightarrow>
                       let newInterval = seconds (pc_HealthCheckIntervalSeconds pc);
                           ps4 = ps3\<lparr>ps_Health := update_health newInterval (ps_Health ps3)\<rparr>
                       in (Applied,
                           ps4\<lparr>LastAppliedConfig := Some c, LastAppliedVersion := cfg_Version c,
                               ps_routingTable := routingTable router'\<rparr>))))"

definition countBackends :: "string list \<Rightarrow> (string \<rightharpoonup> bref list) \<Rightarrow> nat" where
  "countBackends order services =
     for_range order services (\<lambda>_ backends count. count + length backends) 0"

text \<open>\<open>GetPort\<close> also dereferences \<open>ProxyConfig\<close>; the result \<open>None\<close> is the panic.\<close>

definition GetPort :: "ProxyState \<Rightarrow> int option" where
  "GetPort ps =
     (case LastAppliedConfig ps of
        None \<Rightarrow> Some 8089
      | Some c \<Rightarrow> map_option (\<lambda>pc. sint (pc_Port pc)) (cfg_ProxyConfig c))"

definition IsReady :: "ProxyState \<Rightarrow> bool" where
  "IsReady ps \<longleftrightarrow> LastAppliedConfig ps \<noteq> None \<and> BackendPool ps \<and> ps_Health ps \<noteq> None \<and> ps_Router ps \<noteq> None"

definition UpdateMetrics :: "string list \<Rightarrow> ProxyState \<Rightarrow> ProxyState" where
  "UpdateMetrics order ps =
     (if \<not> BackendPool ps then ps
      else ps\<lparr>store := emit (concat (map (\<lambda>r. UpdateBackendConnections (Name (heap (store ps) r))
             (GetActiveRequests (heap (store ps) r))) (GetAllBackends order (store ps)))) (store ps)\<rparr>)"

definition GetVersion :: "ProxyState \<Rightarrow> string" where
  "GetVersion ps = LastAppliedVersion ps"

section \<open>What creating backends does to the store\<close>

definition extends :: "pool \<Rightarrow> pool \<Rightarrow> bool" where
  "extends p q \<longleftrightarrow>
     next_ref p \<le> next_ref q \<and> Backends q = Backends p \<and> calls q = calls p \<and>
     (\<forall>r<next_ref p. heap q r = heap p r) \<and>
     (\<forall>r. next_ref p \<le> r \<and> r < next_ref q \<longrightarrow> (\<exists>n u. heap q r = fresh_backend n u))"

lemma extends_refl [simp]: "extends p p"
  by (auto simp: extends_def)

lemma extends_trans [trans]: "extends p q \<Longrightarrow> extends q r \<Longrightarrow> extends p r"
proof -
  assume a: "extends p q" "extends q r"
  have "\<exists>n u. heap r x = fresh_backend n u" if "next_ref p \<le> x" "x < next_ref r" for x
    using a that by (cases "x < next_ref q") (auto simp: extends_def)
  moreover have "heap r x = heap p x" if "x < next_ref p" for x
    using a that by (simp add: extends_def)
  ultimately show ?thesis using a by (simp add: extends_def)
qed

lemma extends_alloc: "extends p (snd (alloc (fresh_backend n u) p))"
  by (auto simp: extends_def alloc_def)

definition created :: "(string \<Rightarrow> URL option) \<Rightarrow> string \<Rightarrow> nat \<Rightarrow> Endpoint list \<Rightarrow> Backend list" where
  "created parse s i eps =
     map (\<lambda>(j, ep). fresh_backend (backend_name s j) (the (parse (endpoint_url (Address ep)))))
       (enumerate i eps)"

definition parses :: "(string \<Rightarrow> URL option) \<Rightarrow> Endpoint list \<Rightarrow> bool" where
  "parses parse eps \<longleftrightarrow> (\<forall>ep\<in>set eps. parse (endpoint_url (Address ep)) \<noteq> None)"

lemma length_created [simp]: "length (created parse s i eps) = length eps"
  by (simp add: created_def)

lemma created_fresh: "b \<in> set (created parse s i eps) \<Longrightarrow> \<exists>n u. b = fresh_backend n u"
  by (auto simp: created_def)

lemma backend_name_inj: "backend_name s i = backend_name s j \<longleftrightarrow> i = j"
  by (simp add: backend_name_def itoa_inj)

lemma created_names: "map Name (created parse s i eps) = map (backend_name s) [i..<i + length eps]"
  by (rule nth_equalityI) (simp_all add: created_def nth_enumerate_eq)

lemma distinct_created: "distinct (map Name (created parse s i eps))"
  unfolding created_names by (auto simp: distinct_map inj_on_def backend_name_inj)

lemma create_endpoints_Inr:
  assumes "create_endpoints parse s i eps acc p = (Inr out, q)" "\<forall>ep\<in>set eps. Address ep \<noteq> ''''"
  shows "extends p q \<and> parses parse eps \<and> out = acc @ [next_ref p..<next_ref q] \<and>
    map (heap q) [next_ref p..<next_ref q] = created parse s i eps"
  using assms
proof (induction eps arbitrary: i acc p)
  case Nil
  then show ?case by (simp add: created_def parses_def)
next
  case (Cons ep eps)
  obtain u where u: "parse (endpoint_url (Address ep)) = Some u"
    using Cons.prems by (auto split: option.splits)
  let ?p = "snd (alloc (fresh_backend (backend_name s i) u) p)"
  have p': "next_ref ?p = next_ref p + 1" "heap ?p (next_ref p) = fresh_backend (backend_name s i) u"
    by (simp_all add: alloc_def)
  have "create_endpoints parse s (i + 1) eps (acc @ [next_ref p]) ?p = (Inr out, q)"
    using Cons.prems u by (simp add: alloc_def)
  from Cons.IH [OF this] Cons.prems(2) p'(1)
  have IH: "extends ?p q" "parses parse eps" "out = acc @ next_ref p # [next_ref p + 1..<next_ref q]"
    "map (heap q) [next_ref p + 1..<next_ref q] = created parse s (i + 1) eps" by auto
  have lt: "next_ref p < next_ref q" using IH(1) p'(1) by (simp add: extends_def)
  then have upt: "[next_ref p..<next_ref q] = next_ref p # [next_ref p + 1..<next_ref q]"
    by (simp add: upt_conv_Cons)
  have "heap q (next_ref p) = fresh_backend (backend_name s i) u"
    using IH(1) p' by (simp add: extends_def)
  then show ?case
    using IH u extends_trans [OF extends_alloc IH(1)] unfolding upt
    by (simp add: created_def parses_def)
qed

lemma create_endpoints_Inl:
  assumes "create_endpoints parse s i eps acc p = (Inl e, q)"
  shows "extends p q \<and> (\<exists>ep\<in>set eps. parse (endpoint_url (Address ep)) = None \<and>
    e = InvalidEndpoint (Address ep) s)"
  using assms
proof (induction eps arbitrary: i acc p)
  case (Cons ep eps)
  show ?case
  proof (cases "Address ep = '''' \<or> parse (endpoint_url (Address ep)) = None")
    case True
    then show ?thesis using Cons by (cases "Address ep = ''''") fastforce+
  next
    case False
    then obtain u where u: "parse (endpoint_url (Address ep)) = Some u" by auto
    then have "create_endpoints parse s (i + 1) eps (acc @ [next_ref p])
        (snd (alloc (fresh_backend (backend_name s i) u) p)) = (Inl e, q)"
      using Cons.prems False by (simp add: alloc_def)
    from Cons.IH [OF this] extends_trans [OF extends_alloc] show ?thesis by auto
  qed
qed simp

text \<open>
  The map that the loop over the services builds: every entry lists freshly allocated,
  pairwise different pointers to the backends of its service, in the order of the endpoints,
  and no pointer occurs in two entries.
\<close>

definition fresh_map ::
  "(string \<Rightarrow> URL option) \<Rightarrow> (string \<rightharpoonup> ServiceRouting) \<Rightarrow> bref \<Rightarrow> pool \<Rightarrow> (string \<rightharpoonup> bref list) \<Rightarrow> bool" where
  "fresh_map parse table base p m \<longleftrightarrow>
     (\<forall>s bs. m s = Some bs \<longrightarrow>
        (\<exists>svc. table s = Some svc \<and> map (heap p) bs = created parse s 0 (Endpoints svc)) \<and>
        bs \<noteq> [] \<and> distinct bs \<and> set bs \<subseteq> {base..<next_ref p}) \<and>
     (\<forall>s s' bs bs'. m s = Some bs \<longrightarrow> m s' = Some bs' \<longrightarrow> s \<noteq> s' \<longrightarrow> set bs \<inter> set bs' = {})"

definition good_table :: "(string \<rightharpoonup> ServiceRouting) \<Rightarrow> bool" where
  "good_table table \<longleftrightarrow>
     (\<forall>s svc. table s = Some svc \<longrightarrow> Endpoints svc \<noteq> [] \<and> (\<forall>ep\<in>set (Endpoints svc). Address ep \<noteq> ''''))"

lemma fresh_map_empty [simp]: "fresh_map parse table base p Map.empty"
  by (simp add: fresh_map_def)

lemma fresh_map_extends:
  assumes "fresh_map parse table base p m" "extends p q"
  shows "fresh_map parse table base q m"
proof -
  have same: "map (heap q) bs = map (heap p) bs" if "set bs \<subseteq> {base..<next_ref p}" for bs
    using assms(2) that by (force simp: extends_def)
  have "set bs \<subseteq> {base..<next_ref q}" if "set bs \<subseteq> {base..<next_ref p}" for bs
    using assms(2) that by (force simp: extends_def)
  with assms(1) same show ?thesis unfolding fresh_map_def by metis
qed

lemma fresh_map_add:
  assumes m: "fresh_map parse table base p m" and e: "extends p q" and s: "m s = None" "table s = Some svc"
    and new: "map (heap q) [next_ref p..<next_ref q] = created parse s 0 (Endpoints svc)"
      "Endpoints svc \<noteq> []" and base: "base \<le> next_ref p"
  shows "fresh_map parse table base q (m(s \<mapsto> [next_ref p..<next_ref q]))"
proof -
  have old: "set bs \<inter> {next_ref p..<next_ref q} = {}" if "m s' = Some bs" for s' bs
    using m that by (force simp: fresh_map_def)
  have "[next_ref p..<next_ref q] \<noteq> []" using new by (metis length_created length_map list.size(3) length_0_conv)
  with fresh_map_extends [OF m e] new s base old show ?thesis
    unfolding fresh_map_def by (auto simp: disjoint_iff) 
qed

lemma create_services_Inr:
  assumes "create_services parse order table m p = (Inr out, q)" "good_table table" "distinct order"
    "fresh_map parse table base p m" "\<forall>s\<in>set order. m s = None" "base \<le> next_ref p"
  shows "extends p q \<and> fresh_map parse table base q out \<and>
    dom out = dom m \<union> (set order \<inter> dom table) \<and>
    (\<forall>s\<in>set order. \<forall>svc. table s = Some svc \<longrightarrow> parses parse (Endpoints svc))"
  using assms
proof (induction order arbitrary: m p)
  case (Cons s order)
  show ?case
  proof (cases "table s")
    case None
    with Cons.IH [of m p] Cons.prems show ?thesis by auto
  next
    case (Some svc)
    then have svc: "Endpoints svc \<noteq> []" "\<forall>ep\<in>set (Endpoints svc). Address ep \<noteq> ''''"
      using Cons.prems(2) by (auto simp: good_table_def)
    obtain bs p' where c: "create_endpoints parse s 0 (Endpoints svc) [] p = (Inr bs, p')"
      using Cons.prems(1) Some svc by (auto split: prod.splits sum.splits)
    note ok = create_endpoints_Inr [OF c svc(2)]
    have bs: "bs = [next_ref p..<next_ref p']" "bs \<noteq> []"
    proof -
      show bs: "bs = [next_ref p..<next_ref p']" using ok by simp
      have "length (map (heap p') bs) = length (created parse s 0 (Endpoints svc))"
        using ok unfolding bs by metis
      then show "bs \<noteq> []" using svc(1) by auto
    qed
    have step: "create_services parse order table (m(s \<mapsto> bs)) p' = (Inr out, q)"
      using Cons.prems(1) Some svc c bs(2) by simp
    have fm: "fresh_map parse table base p' (m(s \<mapsto> bs))"
      unfolding bs(1) using ok Some svc Cons.prems(4-6) by (intro fresh_map_add) auto
    have base: "base \<le> next_ref p'" using ok Cons.prems(6) by (auto simp: extends_def)
    have "\<forall>s'\<in>set order. (m(s \<mapsto> bs)) s' = None" "distinct order" using Cons.prems(3,5) by auto
    then have "extends p' q \<and> fresh_map parse table base q out \<and>
        dom out = dom (m(s \<mapsto> bs)) \<union> (set order \<inter> dom table) \<and>
        (\<forall>s\<in>set order. \<forall>svc. table s = Some svc \<longrightarrow> parses parse (Endpoints svc))"
      using Cons.IH [OF step Cons.prems(2) _ fm _ base] by blast
    then show ?thesis using ok Some extends_trans [of p p' q] by auto
  qed
qed (auto simp: disjoint_iff)

lemma create_services_Inl:
  assumes "create_services parse order table m p = (Inl e, q)" "good_table table"
  shows "extends p q \<and> (\<exists>s\<in>set order. \<exists>svc. table s = Some svc \<and> \<not> parses parse (Endpoints svc))"
  using assms
proof (induction order arbitrary: m p)
  case (Cons s order)
  show ?case
  proof (cases "table s")
    case None
    with Cons.IH [of m p] Cons.prems show ?thesis by auto
  next
    case (Some svc)
    then have svc: "Endpoints svc \<noteq> []" "\<forall>ep\<in>set (Endpoints svc). Address ep \<noteq> ''''"
      using Cons.prems(2) by (auto simp: good_table_def)
    obtain res p' where c: "create_endpoints parse s 0 (Endpoints svc) [] p = (res, p')" by fastforce
    show ?thesis
    proof (cases res)
      case (Inl e')
      then show ?thesis using create_endpoints_Inl [of parse s 0 "Endpoints svc" "[]" p e' p'] c Some svc
          Cons.prems(1) by (auto simp: parses_def)
    next
      case (Inr bs)
      then have "extends p p'" using create_endpoints_Inr c svc(2) by blast
      moreover obtain m' where "create_services parse order table m' p' = (Inl e, q)"
        using Cons.prems(1) Some svc c Inr by auto
      ultimately show ?thesis using Cons.IH Cons.prems(2) extends_trans by (meson list.set_intros(2))
    qed
  qed
qed simp

section \<open>Accepted configurations\<close>

definition urls_ok :: "(string \<Rightarrow> URL option) \<Rightarrow> pb_Config \<Rightarrow> bool" where
  "urls_ok parse c \<longleftrightarrow>
     (\<forall>s\<in>set (cfg_Services c). \<forall>ep\<in>set (svc_Endpoints s). parse (endpoint_url (ep_Address ep)) \<noteq> None)"

definition acceptable :: "(string \<Rightarrow> URL option) \<Rightarrow> pb_Config \<Rightarrow> bool" where
  "acceptable parse c \<longleftrightarrow> config_ok c \<and> cfg_Services c \<noteq> [] \<and> urls_ok parse c"

abbreviation table_of :: "pb_Config \<Rightarrow> string \<rightharpoonup> ServiceRouting" where
  "table_of c \<equiv> services_of (cfg_Services c)"

lemma table_of_Some:
  "config_ok c \<Longrightarrow> table_of c n = Some svc \<longleftrightarrow> (\<exists>s\<in>set (cfg_Services c). svc_Name s = n \<and> svc = routing_of s)"
  by (simp add: services_of_Some config_ok_def)

lemma good_table_of: "config_ok c \<Longrightarrow> good_table (table_of c)"
  by (force simp: good_table_def table_of_Some routing_of_def config_ok_def service_ok_def endpoints_ok_def)

lemma dom_table_of: "dom (table_of c) = svc_Name ` set (cfg_Services c)"
  by (auto simp: services_of_def dom_map_of_conv_image_fst image_image)

lemma urls_ok_table:
  "config_ok c \<Longrightarrow> urls_ok parse c \<longleftrightarrow> (\<forall>s svc. table_of c s = Some svc \<longrightarrow> parses parse (Endpoints svc))"
proof -
  have "parses parse (Endpoints (routing_of s)) \<longleftrightarrow>
      (\<forall>ep\<in>set (svc_Endpoints s). parse (endpoint_url (ep_Address ep)) \<noteq> None)" for s
    by (simp add: parses_def routing_of_def)
  moreover assume "config_ok c"
  ultimately show ?thesis unfolding urls_ok_def table_of_Some [OF \<open>config_ok c\<close>] by blast
qed

lemma CreateBackends_table:
  assumes "CreateBackends parse ks (Some rt) p = (res, q)" "Services rt = table_of c" "config_ok c"
    "range_order (table_of c) ks"
  shows "extends p q \<and>
    (case res of
       Inl e \<Rightarrow> \<not> acceptable parse c
     | Inr m \<Rightarrow> acceptable parse c \<and> fresh_map parse (table_of c) (next_ref p) q m \<and> dom m = dom (table_of c))"
proof -
  have ks: "distinct ks" "set ks = dom (table_of c)" using assms(4) by (auto simp: range_order_def)
  obtain res' where c: "create_services parse ks (table_of c) Map.empty p = (res', q)"
    "res = (case res' of Inl e \<Rightarrow> Inl e | Inr m \<Rightarrow> if map_len ks m = 0 then Inl NoValidServices else Inr m)"
    using assms(1,2) by (auto simp: CreateBackends_def split: prod.splits sum.splits if_splits)
  show ?thesis
  proof (cases res')
    case (Inl e)
    then show ?thesis
      using c create_services_Inl [of parse ks "table_of c" Map.empty p e q] good_table_of [OF assms(3)]
      by (auto simp: acceptable_def urls_ok_table)
  next
    case (Inr m)
    then have m: "extends p q" "fresh_map parse (table_of c) (next_ref p) q m" "dom m = dom (table_of c)"
        "urls_ok parse c"
      using c(1) create_services_Inr [of parse ks "table_of c" Map.empty p m q "next_ref p"]
        good_table_of [OF assms(3)] ks by (auto simp: urls_ok_table assms(3))
    have "map_len ks m = 0 \<longleftrightarrow> dom m = {}" unfolding map_len_0 ks(2) m(3) [symmetric] by auto
    also have "\<dots> \<longleftrightarrow> cfg_Services c = []" by (simp add: m(3) dom_table_of)
    finally show ?thesis using m Inr c(2) assms(3) by (simp add: acceptable_def)
  qed
qed

text \<open>The state after the parts of \<open>HandleConfig\<close> that run before the check interval is read.\<close>

lemma HandleConfig_cases:
  assumes "HandleConfig parse o1 o2 o3 o4 (Some c) ps = (res, ps')"
    "range_order (table_of c) o2"
  obtains (rejected) "res \<notin> {Applied, Panicked}" "\<not> acceptable parse c"
      "extends (store ps) (store ps')" "ps' = ps\<lparr>store := store ps'\<rparr>"
  | (accepted) m st R where "acceptable parse c" "extends (store ps) st"
      "fresh_map parse (table_of c) (next_ref (store ps)) st m" "dom m = dom (table_of c)"
      "store ps' = UpdateBackends st m" "BackendPool ps'" "ps_LoadBalancer ps' \<noteq> None"
      "ps_Router ps' = Some R" "\<exists>rt r. R = UpdateRoutes o3 o4 rt r \<and> Services rt = table_of c"
      "case cfg_ProxyConfig c of
         None \<Rightarrow> res = Panicked
       | Some pc \<Rightarrow> res = Applied \<and> LastAppliedConfig ps' = Some c \<and> LastAppliedVersion ps' = cfg_Version c \<and>
           ps_Health ps' = update_health (seconds (pc_HealthCheckIntervalSeconds pc)) (ps_Health ps)"
proof (cases "buildRoutingTable o1 (Some c)")
  case (Inl e)
  then have "\<not> config_ok c" using buildRoutingTable_Inr [of o1 c] by auto
  then show ?thesis using Inl assms(1) by (intro rejected) (auto simp: HandleConfig_def acceptable_def)
next
  case (Inr rt)
  then have rt: "config_ok c" "Services rt = table_of c" by (simp_all add: buildRoutingTable_Inr)
  obtain res2 st where cb: "CreateBackends parse o2 (Some rt) (store ps) = (res2, st)" by fastforce
  note post = CreateBackends_table [OF cb rt(2,1) assms(2)]
  show ?thesis
  proof (cases res2)
    case (Inl e)
    then show ?thesis using post cb Inr assms(1) by (intro rejected) (auto simp: HandleConfig_def)
  next
    case (Inr m)
    let ?r = "case ps_Router ps of None \<Rightarrow> \<lparr>routingTable = None\<rparr> | Some r \<Rightarrow> r"
    have "HandleConfig parse o1 o2 o3 o4 (Some c) ps = (res, ps')" by (rule assms(1))
    then show ?thesis
      using post cb Inr \<open>buildRoutingTable o1 (Some c) = Inr rt\<close> rt(2)
      by (intro accepted [of st m "UpdateRoutes o3 o4 rt ?r"])
         (auto simp: HandleConfig_def Let_def NewBackendPool_def UpdateBackends_def
            split: option.splits if_splits)
  qed
qed

lemma extends_store: "extends p q \<Longrightarrow> q = p\<lparr>heap := heap q, next_ref := next_ref q\<rparr>"
  by (rule pool.equality) (simp_all add: extends_def)

lemma extends_step: "extends p q \<Longrightarrow> pool_step (p, fl) (q, fl)"
  using step_alloc [of p "next_ref q" "heap q" fl] extends_store [of p q] by (simp add: extends_def)

lemma fresh_map_names:
  assumes "fresh_map parse table base p m" "m s = Some bs"
  shows "distinct (map (\<lambda>r. Name (heap p r)) bs)"
proof -
  obtain svc :: ServiceRouting where "map (heap p) bs = created parse s 0 (Endpoints svc)"
    using assms unfolding fresh_map_def by blast
  then have "map Name (map (heap p) bs) = map Name (created parse s 0 (Endpoints svc))" by simp
  then show ?thesis using distinct_created by (metis (no_types, lifting) map_map o_apply map_eq_conv)
qed

lemma config_step:
  assumes "extends p st" "fresh_map parse table (next_ref p) st m"
  shows "pool_step (p, fl) (UpdateBackends st m, fl)"
proof -
  have "pool_step (p, fl) (UpdateBackends (p\<lparr>heap := heap st, next_ref := next_ref st\<rparr>) m, fl)"
    using assms fresh_map_names [OF assms(2)]
    by (intro step_config) (fastforce simp: extends_def fresh_map_def)+
  then show ?thesis using extends_store [OF assms(1)] by simp
qed

lemma config_pool_inv:
  assumes "pool_inv p" "extends p st" "fresh_map parse table (next_ref p) st m"
  shows "pool_inv (UpdateBackends st m)"
proof -
  have "circuit_inv (heap st r)" if "r < next_ref st" for r
    using assms(1,2) that unfolding extends_def pool_inv_def
    by (cases "r < next_ref p") (simp, metis circuit_inv_fresh leI)
  then show ?thesis using fresh_map_names [OF assms(3)] assms(3)
    by (fastforce simp: pool_inv_def UpdateBackends_def fresh_map_def)
qed

lemma config_disjoint: "fresh_map parse table base st m \<Longrightarrow> disjoint_services (UpdateBackends st m)"
  by (simp add: fresh_map_def disjoint_services_def UpdateBackends_def)

lemma update_health_Some: "update_health d h \<noteq> None"
  by (simp add: update_health_def split: option.split)

lemma nth_created:
  "i < length eps \<Longrightarrow> created parse s 0 eps ! i =
     fresh_backend (backend_name s i) (the (parse (endpoint_url (Address (eps ! i)))))"
  by (simp add: created_def nth_enumerate_eq)

lemma fresh_map_backends:
  assumes "fresh_map parse table base st m" "m n = Some bs" "table n = Some svc"
  shows "length bs = length (Endpoints svc) \<and> (\<forall>i<length bs. heap st (bs ! i) =
    fresh_backend (backend_name n i) (the (parse (endpoint_url (Address (Endpoints svc ! i))))))"
proof -
  have c: "map (heap st) bs = created parse n 0 (Endpoints svc)"
    using assms by (force simp: fresh_map_def)
  then have len: "length bs = length (Endpoints svc)" by (metis length_map length_created)
  have "heap st (bs ! i) = created parse n 0 (Endpoints svc) ! i" if "i < length bs" for i
    using that unfolding c [symmetric] by simp
  with len show ?thesis by (simp add: nth_created)
qed

text \<open>
  C13. \<open>HandleConfig\<close> applies a configuration exactly when it passes the validation, has a
  service, all its endpoint addresses parse as URLs and it carries a \<open>ProxyConfig\<close>; without
  the last it panics after the router and pool were already replaced. A rejected configuration
  changes nothing of the state: only freshly allocated, unreferenced backends remain.
\<close>

theorem HandleConfig_all_or_nothing:
  assumes "HandleConfig parse o1 o2 o3 o4 (Some c) ps = (res, ps')" "range_order (table_of c) o2"
  shows "(res = Applied \<longleftrightarrow> acceptable parse c \<and> cfg_ProxyConfig c \<noteq> None) \<and>
    (res = Panicked \<longleftrightarrow> acceptable parse c \<and> cfg_ProxyConfig c = None) \<and>
    (\<not> acceptable parse c \<longrightarrow> ps' = ps\<lparr>store := store ps'\<rparr> \<and> extends (store ps) (store ps'))"
  using assms
proof (cases rule: HandleConfig_cases [consumes 2])
  case rejected
  then show ?thesis by auto
next
  case (accepted m st R)
  then show ?thesis by (cases "cfg_ProxyConfig c") auto
qed

text \<open>
  C14. After an applied configuration the proxy is ready and reports the new version, and the
  pool has exactly the configured services; the backends of a service stand in the order of its
  endpoints, the \<open>i\<close>-th is named \<open>service-i\<close>, points to the URL of the \<open>i\<close>-th endpoint, and is
  healthy with a closed circuit, no failure and no active request. The pool is well formed and
  no backend belongs to two services.
\<close>

theorem HandleConfig_applied:
  assumes "HandleConfig parse o1 o2 o3 o4 (Some c) ps = (Applied, ps')" "range_order (table_of c) o2"
    "pool_inv (store ps)"
  shows "IsReady ps' \<and> GetVersion ps' = cfg_Version c \<and>
    dom (Backends (store ps')) = svc_Name ` set (cfg_Services c) \<and>
    (\<forall>s\<in>set (cfg_Services c). \<exists>bs. Backends (store ps') (svc_Name s) = Some bs \<and>
       length bs = length (svc_Endpoints s) \<and>
       (\<forall>i<length bs. heap (store ps') (bs ! i) =
          fresh_backend (backend_name (svc_Name s) i)
            (the (parse (endpoint_url (ep_Address (svc_Endpoints s ! i))))))) \<and>
    pool_inv (store ps') \<and> disjoint_services (store ps')"
  using assms(1,2)
proof (cases rule: HandleConfig_cases [consumes 2])
  case (accepted m st R)
  have c: "config_ok c" using accepted(1) by (simp add: acceptable_def)
  have b: "Backends (store ps') = m" "heap (store ps') = heap st"
    using accepted(5) by (simp_all add: UpdateBackends_def)
  have "\<exists>bs. m (svc_Name s) = Some bs \<and> length bs = length (svc_Endpoints s) \<and>
      (\<forall>i<length bs. heap st (bs ! i) = fresh_backend (backend_name (svc_Name s) i)
        (the (parse (endpoint_url (ep_Address (svc_Endpoints s ! i))))))"
    if "s \<in> set (cfg_Services c)" for s
  proof -
    have t: "table_of c (svc_Name s) = Some (routing_of s)" using that c by (auto simp: table_of_Some)
    moreover obtain bs where "m (svc_Name s) = Some bs" using accepted(4) t by blast
    ultimately show ?thesis using fresh_map_backends [OF accepted(3)] by (simp add: routing_of_def)
  qed
  moreover have "IsReady ps'" "GetVersion ps' = cfg_Version c"
    using accepted(6,8,10) update_health_Some
    by (auto simp: IsReady_def GetVersion_def split: option.splits)
  moreover have "pool_inv (store ps')" "disjoint_services (store ps')"
    unfolding accepted(5)
    using config_pool_inv [OF assms(3) accepted(2,3)] config_disjoint [OF accepted(3)] by simp_all
  ultimately show ?thesis unfolding b using accepted(4) by (simp add: dom_table_of)
qed simp

section \<open>Reachable proxies\<close>

text \<open>
  A running proxy applies configurations and, in between and concurrently, requests, health
  checks and drains work on its store in the steps of \<open>pool_step\<close> that do not replace the map.
  After a panic there is no further step.
\<close>

inductive proxy_reach :: "(string \<Rightarrow> URL option) \<Rightarrow> ProxyState \<times> bref multiset \<Rightarrow> bool" for parse where
  proxy_new: "proxy_reach parse (NewProxyState, {#})"
| proxy_config: "proxy_reach parse (ps, fl) \<Longrightarrow> range_order (table_of c) o2 \<Longrightarrow>
    HandleConfig parse o1 o2 o3 o4 (Some c) ps = (res, ps') \<Longrightarrow> res \<noteq> Panicked \<Longrightarrow>
    proxy_reach parse (ps', fl)"
| proxy_pool: "proxy_reach parse (ps, fl) \<Longrightarrow> pool_step (store ps, fl) (q, fl') \<Longrightarrow>
    Backends q = Backends (store ps) \<Longrightarrow> proxy_reach parse (ps\<lparr>store := q\<rparr>, fl')"

definition routes_backed :: "ProxyState \<Rightarrow> bool" where
  "routes_backed ps \<longleftrightarrow>
     (\<exists>R. ps_Router ps = Some R \<and>
        (\<forall>n. (\<exists>path meth. FindService R path meth = Inr n) \<or> (\<exists>vip. FindServiceByVIP R vip = Inr n) \<longrightarrow>
           BackendPool ps \<and> ps_LoadBalancer ps \<noteq> None \<and> ps_Health ps \<noteq> None \<and>
           (\<exists>bs. Backends (store ps) n = Some bs \<and> bs \<noteq> [])))"

definition proxy_inv :: "ProxyState \<Rightarrow> bref multiset \<Rightarrow> bool" where
  "proxy_inv ps fl \<longleftrightarrow> pool_reach (store ps, fl) \<and> disjoint_services (store ps) \<and> routes_backed ps"

lemma lookup_in_table:
  "FindService (UpdateRoutes o1 o2 rt r) path meth = Inr n \<Longrightarrow> n \<in> dom (Services rt)"
  "FindServiceByVIP (UpdateRoutes o1 o2 rt r) vip = Inr n \<Longrightarrow> n \<in> dom (Services rt)"
proof -
  show "n \<in> dom (Services rt)" if "FindService (UpdateRoutes o1 o2 rt r) path meth = Inr n"
    using that by (auto simp: FindService_UpdateRoutes split: option.splits dest: find_SomeD)
  show "n \<in> dom (Services rt)" if "FindServiceByVIP (UpdateRoutes o1 o2 rt r) vip = Inr n"
    using that by (auto simp: FindServiceByVIP_def UpdateRoutes_def Let_def buildVipIndex_eq
        split: option.splits dest: find_SomeD)
qed

lemma proxy_inv_new: "proxy_inv NewProxyState {#}"
proof -
  have "pool_reach (empty_pool, {#})" by (rule pool_start) (simp_all add: empty_pool_def)
  moreover have "disjoint_services empty_pool" by (simp add: disjoint_services_def empty_pool_def)
  ultimately show ?thesis
    by (simp add: proxy_inv_def routes_backed_def NewProxyState_def FindService_def FindServiceByVIP_def)
qed

lemma extends_pool_frame: "extends p q \<Longrightarrow> disjoint_services q = disjoint_services p"
  by (simp add: extends_def disjoint_services_def)

lemma proxy_inv_config:
  assumes "proxy_inv ps fl" "range_order (table_of c) o2"
    "HandleConfig parse o1 o2 o3 o4 (Some c) ps = (res, ps')" "res \<noteq> Panicked"
  shows "proxy_inv ps' fl"
  using assms(3,2)
proof (cases rule: HandleConfig_cases [consumes 2])
  case rejected
  have "pool_reach (store ps', fl)"
    using assms(1) extends_step [OF rejected(3)] by (auto simp: proxy_inv_def intro: pool_next)
  moreover have "routes_backed (ps\<lparr>store := store ps'\<rparr>)"
    using assms(1) rejected(3) by (auto simp: proxy_inv_def routes_backed_def extends_def)
  ultimately show ?thesis
    using assms(1) extends_pool_frame [OF rejected(3)] rejected(4) by (simp add: proxy_inv_def)
next
  case (accepted m st R)
  have "pool_reach (store ps', fl)"
    unfolding accepted(5) using assms(1) config_step [OF accepted(2,3)]
    by (auto simp: proxy_inv_def intro: pool_next)
  moreover have "disjoint_services (store ps')"
    unfolding accepted(5) by (rule config_disjoint [OF accepted(3)])
  moreover have "routes_backed ps'"
  proof -
    have m: "Backends (store ps') = m" using accepted(5) by (simp add: UpdateBackends_def)
    have "\<exists>bs. m n = Some bs \<and> bs \<noteq> []" if "n \<in> dom (table_of c)" for n
      using that accepted(3) unfolding accepted(4) [symmetric] fresh_map_def by blast
    moreover have "n \<in> dom (table_of c)"
      if "(\<exists>path meth. FindService R path meth = Inr n) \<or> (\<exists>vip. FindServiceByVIP R vip = Inr n)" for n
      using that accepted(9) lookup_in_table by metis
    moreover have "ps_Health ps' \<noteq> None"
      using accepted(10) assms(4) update_health_Some by (auto split: option.splits)
    ultimately show ?thesis unfolding routes_backed_def m using accepted(6,7,8) by blast
  qed
  ultimately show ?thesis by (simp add: proxy_inv_def)
qed

lemma proxy_reach_inv:
  assumes "proxy_reach parse (ps, fl)"
  shows "proxy_inv ps fl"
proof -
  have "proxy_inv (fst s) (snd s)" if "proxy_reach parse s" for s
    using that
  proof induction
    case (proxy_pool ps fl q fl')
    then show ?case
      by (auto simp: proxy_inv_def routes_backed_def disjoint_services_def intro: pool_next)
  qed (auto simp: proxy_inv_new intro: proxy_inv_config)
  from this [OF assms] show ?thesis by simp
qed


text \<open>
  C16. The configuration handler implements the abstract steps of the pool: in every reachable
  state of the proxy the store is a reachable pool, so that names within a service are
  distinct, healthy backends have closed circuits, active counters count the requests in
  flight, and no backend belongs to two services.
\<close>

theorem proxy_store_is_reachable_pool:
  assumes "proxy_reach parse (ps, fl)"
  shows "pool_reach (store ps, fl) \<and> pool_inv (store ps) \<and> disjoint_services (store ps) \<and>
    (\<forall>r<next_ref (store ps). ActiveRequest (heap (store ps) r) = of_nat (count fl r))"
  using proxy_reach_inv [OF assms] active_requests_accounted_aux [of "store ps" fl]
  by (auto simp: proxy_inv_def accounted_def)

section \<open>Applying a configuration again\<close>

lemma same_names_not_removed:
  assumes "\<And>s bs. old s = Some bs \<Longrightarrow> \<exists>bs'. new s = Some bs' \<and> Name ` h ` set bs \<subseteq> Name ` h ` set bs'"
  shows "findRemovedBackends h ks old new = []"
proof -
  have "removed_in h new s bs = []" if "old s = Some bs" for s bs
  proof -
    obtain bs' where bs': "new s = Some bs'" "Name ` h ` set bs \<subseteq> Name ` h ` set bs'"
      using assms [OF \<open>old s = Some bs\<close>] by blast
    have "\<exists>r'\<in>set bs'. Name (h r') = Name (h r)" if "r \<in> set bs" for r
      using bs'(2) that by (fastforce simp: image_image image_subset_iff)
    then show ?thesis using bs'(1) by (auto simp: removed_in_def filter_empty_conv)
  qed
  then show ?thesis by (auto simp: findRemovedBackends_eq split: option.split)
qed

lemma fresh_map_name_set:
  assumes "fresh_map parse table base st m" "m n = Some bs" "table n = Some svc"
  shows "(\<lambda>r. Name (heap st r)) ` set bs = backend_name n ` {0..<length (Endpoints svc)}"
proof -
  have "map (heap st) bs = created parse n 0 (Endpoints svc)" using assms by (force simp: fresh_map_def)
  then have "map Name (map (heap st) bs) = map (backend_name n) [0..<length (Endpoints svc)]"
    using created_names [of parse n 0] by simp
  then have "set (map Name (map (heap st) bs)) = set (map (backend_name n) [0..<length (Endpoints svc)])"
    by (rule arg_cong)
  then show ?thesis by (simp add: image_image)
qed

lemma applied_store:
  assumes "HandleConfig parse o1 o2 o3 o4 (Some c) ps = (Applied, ps')" "range_order (table_of c) o2"
  shows "\<exists>m st. extends (store ps) st \<and> fresh_map parse (table_of c) (next_ref (store ps)) st m \<and>
    dom m = dom (table_of c) \<and> store ps' = UpdateBackends st m"
  by (cases rule: HandleConfig_cases [OF assms]) auto

text \<open>
  Applying a configuration again forgets what the proxy learned: let any activity that
  keeps the map and the names (requests, failed health checks, opened circuits) happen after a
  configuration was applied, and let the same configuration arrive once more. Then every
  backend of the pool is a new object, healthy, with a closed circuit and a zero active count,
  and none of the replaced backends is drained, since draining compares names only.
\<close>

theorem reapplied_config_resets_backends:
  assumes "HandleConfig parse o1 o2 o3 o4 (Some c) ps = (Applied, ps1)" "range_order (table_of c) o2"
    and "Backends q = Backends (store ps1)" "next_ref q = next_ref (store ps1)"
      "\<forall>r. Name (heap q r) = Name (heap (store ps1) r)"
    and "HandleConfig parse o1' o2' o3' o4' (Some c) (ps1\<lparr>store := q\<rparr>) = (Applied, ps2)"
      "range_order (table_of c) o2'"
  shows "(\<forall>s bs r. Backends (store ps2) s = Some bs \<and> r \<in> set bs \<longrightarrow>
      Healthy (heap (store ps2) r) \<and> circ_state (heap (store ps2) r) = Closed \<and>
      ActiveRequest (heap (store ps2) r) = 0 \<and> next_ref q \<le> r) \<and>
    findRemovedBackends (heap (store ps2)) ks (Backends q) (Backends (store ps2)) = []"
proof -
  from applied_store [OF assms(1,2)] obtain m1 st1 where a1: "fresh_map parse (table_of c) (next_ref (store ps)) st1 m1"
      "dom m1 = dom (table_of c)" "store ps1 = UpdateBackends st1 m1"
    by blast
  from applied_store [OF assms(6,7)] obtain m2 st2 where a2: "fresh_map parse (table_of c) (next_ref q) st2 m2"
      "dom m2 = dom (table_of c)" "store ps2 = UpdateBackends st2 m2" "extends q st2"
    by auto
  have new: "(\<exists>n u. heap st2 r = fresh_backend n u) \<and> next_ref q \<le> r" if "m2 s = Some bs" "r \<in> set bs" for s bs r
  proof -
    have "set bs \<subseteq> {next_ref q..<next_ref st2}" using a2(1) that(1) unfolding fresh_map_def by blast
    then show ?thesis using that(2) a2(4) by (auto simp: extends_def)
  qed
  have "\<exists>bs'. m2 s = Some bs' \<and> Name ` heap st2 ` set bs \<subseteq> Name ` heap st2 ` set bs'" if "m1 s = Some bs" for s bs
  proof -
    have s: "s \<in> dom (table_of c)" using that unfolding a1(2) [symmetric] by (rule domI)
    then obtain svc where svc: "table_of c s = Some svc" by blast
    from s obtain bs' where bs': "m2 s = Some bs'" unfolding a2(2) [symmetric] by blast
    have "set bs \<subseteq> {next_ref (store ps)..<next_ref st1}" using a1(1) that unfolding fresh_map_def by blast
    moreover have "Name (heap st2 r) = Name (heap st1 r)" if "r < next_ref st1" for r
      using that assms(4,5) a1(3) a2(4) by (simp add: extends_def UpdateBackends_def)
    ultimately have "Name (heap st2 r) = Name (heap st1 r)" if "r \<in> set bs" for r
      using that by auto
    then have "(\<lambda>r. Name (heap st2 r)) ` set bs = (\<lambda>r. Name (heap st1 r)) ` set bs" by simp
    also have "\<dots> = (\<lambda>r. Name (heap st2 r)) ` set bs'"
      unfolding fresh_map_name_set [OF a1(1) that svc] fresh_map_name_set [OF a2(1) bs' svc] ..
    finally show ?thesis using bs' by (auto simp: image_image)
  qed
  then have "findRemovedBackends (heap st2) ks m1 m2 = []" by (rule same_names_not_removed)
  moreover have "Backends q = m1" "Backends (store ps2) = m2" "heap (store ps2) = heap st2"
    using assms(3) a1(3) a2(3) by (simp_all add: UpdateBackends_def)
  ultimately show ?thesis using new by fastforce
qed

section \<open>A concrete run\<close>

definition example_parse :: "string \<Rightarrow> URL option" where
  "example_parse a = (if HasPrefix a ''http://'' then Some \<lparr>Scheme = ''http'', Host = drop 7 a, UPath = ''''\<rparr> else None)"

definition example_cfg :: pb_Config where
  "example_cfg = example_config [example_service ''a'' [''x'']]"

definition example_ps :: ProxyState where
  "example_ps = snd (HandleConfig example_parse [''a''] [''a''] [''a''] [''a''] (Some example_cfg) NewProxyState)"

lemma example_order: "range_order (table_of example_cfg) [''a'']"
  unfolding range_order_def dom_table_of
  by (simp add: example_cfg_def example_config_def example_service_def)

lemma example_acceptable: "acceptable example_parse example_cfg"
  by (simp add: acceptable_def config_ok_def urls_ok_def service_ok_def endpoints_ok_def routes_ok_def
      example_cfg_def example_config_def example_service_def example_parse_def endpoint_url_def HasPrefix_def)

lemma example_applies:
  "fst (HandleConfig example_parse o1 [''a''] o3 o4 (Some example_cfg) ps) = Applied"
proof -
  obtain res ps' where r: "HandleConfig example_parse o1 [''a''] o3 o4 (Some example_cfg) ps = (res, ps')"
    by fastforce
  then show ?thesis
    by (cases rule: HandleConfig_cases [OF r example_order])
       (use example_acceptable in \<open>auto simp: example_cfg_def example_config_def\<close>)
qed

lemma example_applied:
  "HandleConfig example_parse [''a''] [''a''] [''a''] [''a''] (Some example_cfg) NewProxyState =
     (Applied, example_ps)"
  using example_applies [of "[''a'']"] unfolding example_ps_def by (metis prod.collapse)

lemma example_reach: "proxy_reach example_parse (example_ps, {#})"
  by (rule proxy_config [OF proxy_new example_order example_applied]) simp

lemma example_pool_inv: "pool_inv (store NewProxyState)"
  by (simp add: pool_inv_def NewProxyState_def empty_pool_def)

theorem HandleConfig_all_or_nothing_witness:
  "fst (HandleConfig example_parse [] [''a''] [] [] (Some (example_cfg\<lparr>cfg_ProxyConfig := None\<rparr>)) NewProxyState)
     = Panicked"
proof -
  let ?c = "example_cfg\<lparr>cfg_ProxyConfig := None\<rparr>"
  have "acceptable example_parse ?c"
    using example_acceptable by (simp add: acceptable_def config_ok_def urls_ok_def)
  moreover have "range_order (table_of ?c) [''a'']" using example_order by simp
  ultimately show ?thesis
    using HandleConfig_all_or_nothing [OF prod.collapse [symmetric], of ?c "[''a'']" example_parse] by simp
qed

theorem HandleConfig_applied_witness:
  "IsReady example_ps \<and> dom (Backends (store example_ps)) = {''a''}"
  using HandleConfig_applied [OF example_applied example_order example_pool_inv]
  by (simp add: example_cfg_def example_config_def example_service_def)

lemma example_table:
  "Services (the (routingTable (the (ps_Router example_ps)))) = table_of example_cfg \<and>
   (\<exists>rt r. ps_Router example_ps = Some (UpdateRoutes [''a''] [''a''] rt r) \<and> Services rt = table_of example_cfg)"
  by (cases rule: HandleConfig_cases [OF example_applied example_order])
     (auto simp: UpdateRoutes_def Let_def)


theorem proxy_store_is_reachable_pool_witness: "disjoint_services (store example_ps)"
  using proxy_store_is_reachable_pool [OF example_reach] by blast

theorem reapplied_config_resets_backends_witness:
  "findRemovedBackends (heap (store (snd (HandleConfig example_parse [] [''a''] [] [] (Some example_cfg) example_ps))))
     [''a''] (Backends (store example_ps))
     (Backends (store (snd (HandleConfig example_parse [] [''a''] [] [] (Some example_cfg) example_ps)))) = []"
proof -
  let ?r = "HandleConfig example_parse [] [''a''] [] [] (Some example_cfg) (example_ps\<lparr>store := store example_ps\<rparr>)"
  have "?r = (Applied, snd ?r)" using example_applies by (metis prod.collapse)
  from reapplied_config_resets_backends [OF example_applied example_order refl refl _ this example_order]
  show ?thesis by simp
qed

section \<open>The configuration client\<close>

text \<open>
  \<open>Subscribe\<close> receives from one stream until the context is cancelled, the stream ends or it
  fails; \<open>SubscribeWithRetry\<close> opens streams, with a pause of five seconds after each, until the
  context is cancelled. What the network delivers is an argument: for every session either a
  failed call or the list of received items. The callback \<open>onUpdate\<close> (for a proxy the
  configuration handler) is a parameter; a nil callback is \<open>None\<close>.
\<close>

record 'st ConfigClient =
  proxyID :: string
  lastVersion :: string
  cc_state :: 'st

datatype recv = RecvConfig pb_Config | RecvEOF | RecvErr | CtxDone

datatype sub_result = SubNil | SubErr

fun recv_loop :: "(pb_Config \<Rightarrow> 'st \<Rightarrow> 'st) option \<Rightarrow> recv list \<Rightarrow> 'st ConfigClient \<Rightarrow> sub_result \<times> 'st ConfigClient" where
  "recv_loop onUpdate [] c = (SubErr, c)"
| "recv_loop onUpdate (CtxDone # evs) c = (SubErr, c)"
| "recv_loop onUpdate (RecvEOF # evs) c = (SubNil, c)"
| "recv_loop onUpdate (RecvErr # evs) c = (SubErr, c)"
| "recv_loop onUpdate (RecvConfig config # evs) c =
     (let c1 = (case onUpdate of None \<Rightarrow> c | Some f \<Rightarrow> c\<lparr>cc_state := f config (cc_state c)\<rparr>)
      in recv_loop onUpdate evs (c1\<lparr>lastVersion := cfg_Version config\<rparr>))"

datatype session = CallFailed | Stream "recv list"

definition cc_Subscribe ::
  "(pb_Config \<Rightarrow> 'st \<Rightarrow> 'st) option \<Rightarrow> session \<Rightarrow> 'st ConfigClient \<Rightarrow> sub_result \<times> 'st ConfigClient" where
  "cc_Subscribe onUpdate s c =
     (case s of CallFailed \<Rightarrow> (SubErr, c) | Stream evs \<Rightarrow> recv_loop onUpdate evs c)"

text \<open>
  Each session comes with two answers of the context: whether it was cancelled before the
  session and during the pause after it. The result also counts the sessions that ran.
\<close>

fun SubscribeWithRetry ::
  "(pb_Config \<Rightarrow> 'st \<Rightarrow> 'st) option \<Rightarrow> (bool \<times> session \<times> bool) list \<Rightarrow> 'st ConfigClient \<Rightarrow> nat \<times> 'st ConfigClient" where
  "SubscribeWithRetry onUpdate [] c = (0, c)"
| "SubscribeWithRetry onUpdate ((cancelled, s, cancelledInPause) # rest) c =
     (if cancelled then (0, c)
      else let (err, c') = cc_Subscribe onUpdate s c
           in if err = SubErr
              then if cancelledInPause then (1, c')
                   else map_prod Suc id (SubscribeWithRetry onUpdate rest c')
              else if cancelledInPause then (1, c')
                   else map_prod Suc id (SubscribeWithRetry onUpdate rest c'))"

fun received :: "recv list \<Rightarrow> pb_Config list" where
  "received (RecvConfig c # evs) = c # received evs"
| "received evs = []"

fun session_configs :: "bool \<times> session \<times> bool \<Rightarrow> pb_Config list" where
  "session_configs (_, CallFailed, _) = []"
| "session_configs (_, Stream evs, _) = received evs"

definition delivered :: "(pb_Config \<Rightarrow> 'st \<Rightarrow> 'st) \<Rightarrow> pb_Config list \<Rightarrow> 'st ConfigClient \<Rightarrow> 'st ConfigClient" where
  "delivered f cfgs c =
     c\<lparr>cc_state := fold f cfgs (cc_state c),
       lastVersion := (if cfgs = [] then lastVersion c else cfg_Version (last cfgs))\<rparr>"

lemma delivered_Nil [simp]: "delivered f [] c = c"
  by (simp add: delivered_def)

lemma delivered_append: "delivered f ys (delivered f xs c) = delivered f (xs @ ys) c"
  by (simp add: delivered_def)

lemma recv_loop_delivers: "snd (recv_loop (Some f) evs c) = delivered f (received evs) c"
proof (induction "Some f" evs c rule: recv_loop.induct)
  case (5 config evs c)
  then show ?case by (simp add: delivered_def)
qed simp_all

lemma cc_Subscribe_delivers:
  "snd (cc_Subscribe (Some f) s c) = delivered f (session_configs (b, s, b')) c"
  by (cases s) (simp_all add: cc_Subscribe_def recv_loop_delivers)

lemma SubscribeWithRetry_Cons:
  "SubscribeWithRetry f ((b, s, b') # rest) c =
     (if b then (0, c) else let c' = snd (cc_Subscribe f s c) in
      if b' then (1, c') else map_prod Suc id (SubscribeWithRetry f rest c'))"
  by (simp add: split_beta Let_def)

text \<open>
  C17. Across all reconnections the callback runs exactly once for every configuration that
  was received, in the order of reception, whatever sessions failed or ended in between; the
  version reported at the next subscription is that of the last received configuration (also
  if the callback rejected it); and the client gives up only when its context is cancelled.
\<close>

theorem SubscribeWithRetry_delivers:
  "(case SubscribeWithRetry (Some f) ss c of
      (n, c') \<Rightarrow>
        c' = delivered f (concat (map session_configs (take n ss))) c \<and> n \<le> length ss \<and>
        (n = length ss \<or> fst (ss ! n) \<or> 0 < n \<and> snd (snd (ss ! (n - 1)))))"
proof (induction ss arbitrary: c)
  case (Cons x ss)
  obtain b s b' where x: "x = (b, s, b')" by (cases x) auto
  let ?c = "snd (cc_Subscribe (Some f) s c)"
  show ?case
  proof (cases "b \<or> b'")
    case True
    then show ?thesis
      using cc_Subscribe_delivers [of f s c b b'] by (auto simp: x SubscribeWithRetry_Cons Let_def simp del: SubscribeWithRetry.simps)
  next
    case False
    obtain n c' where r: "SubscribeWithRetry (Some f) ss ?c = (n, c')" by fastforce
    then have "SubscribeWithRetry (Some f) (x # ss) c = (Suc n, c')"
      using False by (simp add: x SubscribeWithRetry_Cons Let_def del: SubscribeWithRetry.simps)
    then show ?thesis using Cons.IH [of ?c] r cc_Subscribe_delivers [of f s c b b']
      by (auto simp: x delivered_append nth_Cons' simp del: SubscribeWithRetry.simps)
  qed
qed simp

end
