(* ===== verification/Retry_Loop.thy ===== *)
theory Retry_Loop
  imports Load_Balancer
begin

text \<open>
  The retry loop that the gateway (\<open>pkg/proxy/handler.go\<close>) and the outbound path of the sidecar
  (\<open>pkg/proxy/listener.go\<close>) share: \<open>for attempt := 0; attempt < maxRetries; attempt++\<close> around a
  body that ends in a \<open>continue\<close> (\<open>None\<close>) or leaves the loop with a result. The contract of such
  a body is the locale \<open>bounded_retry\<close>: its last attempt does not continue.
\<close>

function retry_loop :: "nat \<Rightarrow> (nat \<Rightarrow> 's \<Rightarrow> 'r option \<times> 's) \<Rightarrow> nat \<Rightarrow> 's \<Rightarrow> 'r option \<times> 's" where
  "retry_loop maxRetries body attempt s =
     (if attempt < maxRetries
      then case body attempt s of
             (Some r, s') \<Rightarrow> (Some r, s')
           | (None, s') \<Rightarrow> retry_loop maxRetries body (attempt + 1) s'
      else (None, s))"
  by pat_completeness auto
termination
  by (relation "measure (\<lambda>(maxRetries, body, attempt, s). maxRetries - attempt)") auto

declare retry_loop.simps [simp del]

text \<open>The rule for proving that a loop keeps an invariant and establishes a postcondition.\<close>

lemma retry_loop_rule:
  assumes "I a s"
    and step: "\<And>a s s'. a < m \<Longrightarrow> I a s \<Longrightarrow> body a s = (None, s') \<Longrightarrow> I (Suc a) s'"
    and exit: "\<And>a s r s'. a < m \<Longrightarrow> I a s \<Longrightarrow> body a s = (Some r, s') \<Longrightarrow> Q (Some r) s'"
    and fall: "\<And>a s. m \<le> a \<Longrightarrow> I a s \<Longrightarrow> Q None s"
  shows "Q (fst (retry_loop m body a s)) (snd (retry_loop m body a s))"
  using assms(1)
proof (induction "m - a" arbitrary: a s)
  case 0
  then show ?case using fall by (simp add: retry_loop.simps [of m])
next
  case (Suc k)
  then have a: "a < m" by simp
  obtain res s' where b: "body a s = (res, s')" by fastforce
  show ?case
  proof (cases res)
    case None
    then show ?thesis using a b step Suc by (simp add: retry_loop.simps [of m body a])
  next
    case (Some r)
    then show ?thesis using a b exit Suc.prems by (simp add: retry_loop.simps [of m body a])
  qed
qed

section \<open>A selection is a sequence of pool steps\<close>

lemma pool_reach_query: "pool_reach (p, fl) \<Longrightarrow> pool_reach (snd (pool_GetCircuitState p s n ci), fl)"
  by (rule pool_next [OF _ step_query])

lemma pool_reach_rr_scan: "pool_reach (p, fl) \<Longrightarrow> pool_reach (snd (rr_scan p s xs), fl)"
  by (induction xs arbitrary: p) (auto simp: split_beta intro: pool_reach_query)

lemma pool_reach_lc_scan: "pool_reach (p, fl) \<Longrightarrow> pool_reach (snd (lc_scan p s xs least), fl)"
  by (induction xs arbitrary: p least) (auto simp: split_beta intro: pool_reach_query)

lemma pool_reach_GetNextPeer: "pool_reach (p, fl) \<Longrightarrow> pool_reach (snd (snd (GetNextPeer lb p s)), fl)"
  using pool_reach_rr_scan pool_reach_lc_scan
  by (auto simp: GetNextPeer_def getNextLeastConnection_def getNextRoundRobin_unfold split_beta
      split: option.split)

lemma selected_allocated:
  assumes "pool_reach (p, fl)" "fst (GetNextPeer lb p s) = Inr r"
  shows "r < next_ref (snd (snd (GetNextPeer lb p s)))"
proof -
  have inv: "pool_inv p" using active_requests_accounted_aux [OF assms(1)] by simp
  obtain bs where "Backends p s = Some bs" "r \<in> set bs" using GetNextPeer_sound [OF inv assms(2)] by blast
  then show ?thesis using pool_inv_service(2) [OF inv] same_backendsD(2) [OF GetNextPeer_same] by simp
qed

text \<open>Taking the selected backend, whatever happens meanwhile, and giving it back.\<close>

lemma pool_reach_acquire:
  assumes "pool_reach (p, fl)" "fst (GetNextPeer lb p s) = Inr r"
  shows "pool_reach (upd r IncrementActiveRequests (snd (snd (GetNextPeer lb p s))), add_mset r fl)"
  by (rule pool_next [OF pool_reach_GetNextPeer [OF assms(1)] step_acquire [OF selected_allocated [OF assms]]])

lemma pool_reach_release:
  "pool_reach (p, add_mset r fl) \<Longrightarrow> pool_reach (upd r DecrementActiveRequests p, fl)"
  by (rule pool_next [OF _ step_release])

lemma pool_reach_emit: "pool_reach (p, fl) \<Longrightarrow> pool_reach (emit tr p, fl)"
  by (rule pool_next [OF _ step_emit])

lemma pool_reach_report: "pool_reach (p, fl) \<Longrightarrow> pool_reach (UpdateBackendStatus p s n h ci, fl)"
  by (rule pool_next [OF _ step_report])

lemmas pool_reach_intros =
  pool_reach_query pool_reach_GetNextPeer pool_reach_release pool_reach_emit pool_reach_report

section \<open>Bounded retries\<close>

locale bounded_retry =
  fixes maxRetries :: nat and body :: "nat \<Rightarrow> 's \<Rightarrow> 'r option \<times> 's" and sends :: "'s \<Rightarrow> nat"
  assumes positive: "0 < maxRetries"
    and last_attempt: "attempt + 1 = maxRetries \<Longrightarrow> fst (body attempt s) \<noteq> None"
    and one_send: "sends (snd (body attempt s)) \<le> Suc (sends s)"
begin

lemma returns: "fst (retry_loop maxRetries body 0 s) \<noteq> None"
proof (rule retry_loop_rule [where I = "\<lambda>a s. a < maxRetries" and Q = "\<lambda>r s. r \<noteq> None"])
  fix a t t' assume "a < maxRetries" "body a t = (None, t')"
  then show "Suc a < maxRetries" using last_attempt [of a t] by (cases "a + 1 = maxRetries") auto
qed (use positive in auto)

lemma at_most_maxRetries_sends: "sends (snd (retry_loop maxRetries body 0 s)) \<le> sends s + maxRetries"
proof (rule retry_loop_rule [where I = "\<lambda>a t. a \<le> maxRetries \<and> sends t \<le> sends s + a"])
  fix a t r t' assume "a < maxRetries" "a \<le> maxRetries \<and> sends t \<le> sends s + a" "body a t = (Some r, t')"
  then show "sends t' \<le> sends s + maxRetries" using one_send [of a t] by simp
next
  fix a t t' assume "a < maxRetries" "a \<le> maxRetries \<and> sends t \<le> sends s + a" "body a t = (None, t')"
  then show "Suc a \<le> maxRetries \<and> sends t' \<le> sends s + Suc a" using one_send [of a t] by simp
qed auto

end

section \<open>Retries over the backends of a service\<close>

text \<open>
  A client of the load balancer that retries: each attempt selects a peer; without a peer it
  only changes what the selection changed; with a peer it records the peer in \<open>tried\<close>, and if
  it then continues, it has released the peer and reported it as failed. An attempt leaves the
  loop only with a success or at the last attempt.
\<close>

locale retrying_client = bounded_retry maxRetries body "\<lambda>s. length (tried s)"
  for maxRetries and body :: "nat \<Rightarrow> 's \<Rightarrow> 'r option \<times> 's" and tried :: "'s \<Rightarrow> bref list" +
  fixes svc :: string and ci :: duration and balancer :: "'s \<Rightarrow> LoadBalancer" and pl :: "'s \<Rightarrow> pool"
    and success :: "'r \<Rightarrow> bool"
  assumes no_peer: "fst (GetNextPeer (balancer s) (pl s) svc) = Inl e \<Longrightarrow>
      pl (snd (body a s)) = snd (snd (GetNextPeer (balancer s) (pl s) svc)) \<and>
      tried (snd (body a s)) = tried s"
    and peer_tried: "fst (GetNextPeer (balancer s) (pl s) svc) = Inr r \<Longrightarrow>
      tried (snd (body a s)) = tried s @ [r]"
    and failed_reported: "fst (GetNextPeer (balancer s) (pl s) svc) = Inr r \<Longrightarrow> body a s = (None, s') \<Longrightarrow>
      \<exists>tr. pl s' = (UpdateBackendStatus (snd (snd (GetNextPeer (balancer s) (pl s) svc)))
        svc (Name (heap (pl s) r)) False ci)\<lparr>calls := tr\<rparr>"
    and gives_up_last: "a < maxRetries \<Longrightarrow> fst (body a s) = Some x \<Longrightarrow> \<not> success x \<Longrightarrow> a + 1 = maxRetries"
begin

lemma failed_attempt:
  assumes "pool_inv (pl s)" "fst (GetNextPeer (balancer s) (pl s) svc) = Inr r" "body a s = (None, s')"
  shows "pool_inv (pl s')" "\<not> Healthy (heap (pl s') r)" "Backends (pl s') = Backends (pl s)"
    "\<And>r'. r' \<noteq> r \<Longrightarrow> Healthy (heap (pl s') r') = Healthy (heap (pl s) r')"
    "TargetUrl (heap (pl s') x) = TargetUrl (heap (pl s) x)"
proof -
  let ?p = "snd (snd (GetNextPeer (balancer s) (pl s) svc))"
  let ?q = "UpdateBackendStatus ?p svc (Name (heap (pl s) r)) False ci"
  obtain tr where s': "pl s' = ?q\<lparr>calls := tr\<rparr>" using failed_reported [OF assms(2,3)] by blast
  have "pool_inv ?q" using lb.select_inv [OF assms(1)] by (auto intro: pool_inv_UpdateBackendStatus)
  then show "pool_inv (pl s')" by (simp add: s' pool_inv_def)
  show "\<not> Healthy (heap (pl s') r)" "\<And>r'. r' \<noteq> r \<Longrightarrow> Healthy (heap (pl s') r') = Healthy (heap (pl s) r')"
    using lb.select_avoids_failed(2,3) [OF assms(1), of "balancer s" svc r ?q ci] assms(2) by (simp_all add: s')
  show "Backends (pl s') = Backends (pl s)" "TargetUrl (heap (pl s') x) = TargetUrl (heap (pl s) x)"
    using same_backendsD(1,5) [OF GetNextPeer_same] by (simp_all add: s')
qed

lemma no_peer_attempt:
  assumes "fst (GetNextPeer (balancer s) (pl s) svc) = Inl e" "body a s = (x, s')"
  shows "same_backends (pl s) (pl s')" "tried s' = tried s" "pool_inv (pl s) \<Longrightarrow> pool_inv (pl s')"
  using no_peer [OF assms(1), of a] assms(2) GetNextPeer_same [of "pl s" "balancer s" svc] GetNextPeer_inv
  by auto

text \<open>No peer is tried twice: a failed one is unhealthy until the loop ends.\<close>

lemma tried_distinct:
  assumes "pool_inv (pl s)" "tried s = []"
  shows "distinct (tried (snd (retry_loop maxRetries body 0 s)))"
proof -
  let ?I = "\<lambda>a s. pool_inv (pl s) \<and> distinct (tried s) \<and> (\<forall>r\<in>set (tried s). \<not> Healthy (heap (pl s) r))"
  have new: "r \<notin> set (tried s)" if "?I a s" "fst (GetNextPeer (balancer s) (pl s) svc) = Inr r" for a s r
    using that GetNextPeer_sound by blast
  show ?thesis
  proof (rule retry_loop_rule [where I = ?I and Q = "\<lambda>_ s. distinct (tried s)"])
    fix a s s' assume *: "?I a s" "body a s = (None, s')"
    show "?I (Suc a) s'"
    proof (cases "fst (GetNextPeer (balancer s) (pl s) svc)")
      case (Inl e)
      then show ?thesis using no_peer_attempt [OF Inl *(2)] *(1) by (auto dest: same_backendsD(6))
    next
      case (Inr r)
      note f = failed_attempt [OF _ Inr *(2)]
      have t: "tried s' = tried s @ [r]" using peer_tried [OF Inr, of a] *(2) by simp
      have "\<not> Healthy (heap (pl s') r')" if "r' \<in> set (tried s')" for r'
        using that f(2,4) *(1) t by (cases "r' = r") auto
      then show ?thesis using f(1) new [OF *(1) Inr] *(1) t by simp
    qed
  next
    fix a s x s' assume *: "?I a s" "body a s = (Some x, s')"
    show "distinct (tried s')"
    proof (cases "fst (GetNextPeer (balancer s) (pl s) svc)")
      case (Inl e)
      then show ?thesis using no_peer_attempt [OF Inl *(2)] *(1) by simp
    next
      case (Inr r)
      then show ?thesis using peer_tried [OF Inr, of a] new [OF *(1) Inr] * by simp
    qed
  qed (use assms in auto)
qed

text \<open>
  If fewer healthy peers are dead than there are attempts and some healthy peer answers, the
  loop ends in a success.
\<close>

definition dead :: "(bref \<Rightarrow> bool) \<Rightarrow> bref list \<Rightarrow> 's \<Rightarrow> bref set" where
  "dead answers bs s = {r \<in> set bs. Healthy (heap (pl s) r) \<and> \<not> answers r}"

lemma reaches_live_peer:
  assumes "pool_inv (pl s)" "Backends (pl s) svc = Some bs"
    and live: "r \<in> set bs" "Healthy (heap (pl s) r)" "answers r"
    and few: "card (dead answers bs s) < maxRetries"
    and ans: "\<And>a t r. (\<forall>x. TargetUrl (heap (pl t) x) = TargetUrl (heap (pl s) x)) \<Longrightarrow>
      fst (GetNextPeer (balancer t) (pl t) svc) = Inr r \<Longrightarrow> answers r \<Longrightarrow>
      \<exists>x. fst (body a t) = Some x \<and> success x"
  shows "\<exists>x. fst (retry_loop maxRetries body 0 s) = Some x \<and> success x"
proof -
  let ?U = "\<lambda>t. \<forall>x. TargetUrl (heap (pl t) x) = TargetUrl (heap (pl s) x)"
  let ?I = "\<lambda>a t. pool_inv (pl t) \<and> Backends (pl t) svc = Some bs \<and> Healthy (heap (pl t) r) \<and>
    card (dead answers bs t) + a < maxRetries \<and> ?U t"
  have peer: "\<exists>r'. fst (GetNextPeer (balancer t) (pl t) svc) = Inr r' \<and> r' \<in> set bs \<and> Healthy (heap (pl t) r')"
    if "?I a t" for a t
    using that live(1) GetNextPeer_complete [of "pl t" svc bs r "balancer t"] GetNextPeer_sound [of "pl t"] by fastforce
  have fin: "finite (dead answers bs t)" for t by (simp add: dead_def)
  show ?thesis
  proof (rule retry_loop_rule [where I = ?I and Q = "\<lambda>res _. \<exists>x. res = Some x \<and> success x"])
    fix a t t' assume *: "?I a t" "body a t = (None, t')"
    obtain r' where r': "fst (GetNextPeer (balancer t) (pl t) svc) = Inr r'" "r' \<in> set bs" "Healthy (heap (pl t) r')"
      using peer [OF *(1)] by blast
    have f: "pool_inv (pl t')" "\<not> Healthy (heap (pl t') r')" "Backends (pl t') = Backends (pl t)"
      "\<And>r''. r'' \<noteq> r' \<Longrightarrow> Healthy (heap (pl t') r'') = Healthy (heap (pl t) r'')" "?U t'"
      using failed_attempt [OF _ r'(1) *(2)] *(1) by auto
    have "\<not> answers r'" using ans [OF _ r'(1), of a] * by auto
    then have "dead answers bs t' \<subseteq> dead answers bs t - {r'}" "r' \<in> dead answers bs t"
      using f r' by (auto simp: dead_def) metis
    then have "card (dead answers bs t') < card (dead answers bs t)"
      using fin by (meson card_Diff1_less card_mono finite_Diff le_less_trans)
    moreover have "r \<noteq> r'" using \<open>\<not> answers r'\<close> live(3) by auto
    ultimately show "?I (Suc a) t'" using * f by auto
  next
    fix a t x t' assume *: "a < maxRetries" "?I a t" "body a t = (Some x, t')"
    obtain r' where r': "fst (GetNextPeer (balancer t) (pl t) svc) = Inr r'" "r' \<in> set bs" "Healthy (heap (pl t) r')"
      using peer [OF *(2)] by blast
    show "\<exists>y. Some x = Some y \<and> success y"
    proof (cases "answers r'")
      case True
      then show ?thesis using ans [OF _ r'(1), of a] * by auto
    next
      case False
      then have "card (dead answers bs t) > 0" using r' fin by (auto simp: dead_def card_gt_0_iff)
      then show ?thesis using gives_up_last [of a t x] * by fastforce
    qed
  qed (use assms in \<open>auto simp: dead_def\<close>)
qed

end

end
