(* ===== verification/Reverse_Proxy.thy ===== *)
theory Reverse_Proxy
  imports Backend_Pool Health_Check
begin

text \<open>
  \<open>pkg/proxy/reverseProxy.go\<close> and \<open>pkg/proxy/helpers.go\<close>: what the gateway does to a request
  before it forwards it, to a response before it returns it, and to a forwarding error; with
  the parts of \<open>net/http\<close> and \<open>net\<close> these functions use. A header is a map from canonical
  keys to their values. The propagation of trace headers (OpenTelemetry) is the parameter
  \<open>inject\<close>, the clock is the parameter \<open>now\<close>, the JSON coder is the pair of parameters
  \<open>unmarshal\<close> and \<open>marshal\<close>. The request and response logs are not modelled.
\<close>

section \<open>Headers and addresses\<close>

type_synonym header = "string \<rightharpoonup> string list"

text \<open>\<open>CanonicalHeaderKey\<close> on the letters, digits and hyphens that the keys in use consist of.\<close>

fun canonical :: "bool \<Rightarrow> string \<Rightarrow> string" where
  "canonical up [] = []"
| "canonical up (c # cs) = (if up then upper_char c else lower_char c) # canonical (c = CHR ''-'') cs"

definition CanonicalHeaderKey :: "string \<Rightarrow> string" where
  "CanonicalHeaderKey k = canonical True k"

definition header_Get :: "header \<Rightarrow> string \<Rightarrow> string" where
  "header_Get h k = (case h (CanonicalHeaderKey k) of None \<Rightarrow> '''' | Some [] \<Rightarrow> '''' | Some (v # _) \<Rightarrow> v)"

definition header_Set :: "string \<Rightarrow> string \<Rightarrow> header \<Rightarrow> header" where
  "header_Set k v h = h(CanonicalHeaderKey k \<mapsto> [v])"

text \<open>\<open>net.SplitHostPort\<close>.\<close>

datatype addr_error = MissingPort | MissingBracket | TooManyColons | UnexpectedBracket

fun last_index :: "char \<Rightarrow> string \<Rightarrow> nat option" where
  "last_index c [] = None"
| "last_index c (x # xs) =
     (case last_index c xs of Some i \<Rightarrow> Some (Suc i) | None \<Rightarrow> if x = c then Some 0 else None)"

fun index_byte :: "char \<Rightarrow> string \<Rightarrow> nat option" where
  "index_byte c [] = None"
| "index_byte c (x # xs) = (if x = c then Some 0 else map_option Suc (index_byte c xs))"

definition SplitHostPort :: "string \<Rightarrow> addr_error + string \<times> string" where
  "SplitHostPort hostport =
     (case last_index (CHR '':'') hostport of
        None \<Rightarrow> Inl MissingPort
      | Some i \<Rightarrow>
          let finish = (\<lambda>host j k.
            if index_byte (CHR ''['') (drop j hostport) \<noteq> None then Inl UnexpectedBracket
            else if index_byte (CHR '']'') (drop k hostport) \<noteq> None then Inl UnexpectedBracket
            else Inr (host, drop (i + 1) hostport))
          in if hostport ! 0 = CHR ''[''
             then (case index_byte (CHR '']'') hostport of
                     None \<Rightarrow> Inl MissingBracket
                   | Some e \<Rightarrow>
                       if e + 1 = length hostport then Inl MissingPort
                       else if e + 1 = i then finish (take (e - 1) (drop 1 hostport)) 1 (e + 1)
                       else if hostport ! (e + 1) = CHR '':'' then Inl TooManyColons
                       else Inl MissingPort)
             else let host = take i hostport
                  in if index_byte (CHR '':'') host \<noteq> None then Inl TooManyColons
                     else finish host 0 0)"

definition JoinHostPort :: "string \<Rightarrow> string \<Rightarrow> string" where
  "JoinHostPort host port =
     (if index_byte (CHR '':'') host \<noteq> None then ''['' @ host @ '']:'' @ port else host @ '':'' @ port)"

section \<open>Requests and responses\<close>

text \<open>
  A request's body is shared between the incoming request and its clones; \<open>rq_BodyClosed\<close> says
  whether it was closed, which a transport does on every round trip, also on a failed one.
\<close>

record http_request =
  rq_Method :: string
  rq_URL :: URL
  rq_Host :: string
  rq_Header :: header
  rq_RemoteAddr :: string
  rq_TLS :: bool
  rq_Body :: string
  rq_BodyClosed :: bool

text \<open>The body of a response is the bytes that reading it yields, or \<open>None\<close> if reading fails.\<close>

record http_response =
  rs_StatusCode :: int
  rs_Header :: header
  rs_Body :: "string option"
  rs_ContentLength :: int

section \<open>The helpers of the reverse proxy\<close>

definition singleJoiningSlash :: "string \<Rightarrow> string \<Rightarrow> string" where
  "singleJoiningSlash a b =
     (let aslash = HasSuffix a ''/''; bslash = HasPrefix b ''/''
      in if aslash \<and> bslash then a @ drop 1 b
         else if \<not> aslash \<and> \<not> bslash then a @ ''/'' @ b
         else a @ b)"

text \<open>The backend comes from the context of the request; without one nothing happens.\<close>

definition Director ::
  "(header \<Rightarrow> header) \<Rightarrow> int \<Rightarrow> Backend option \<Rightarrow> http_request \<Rightarrow> http_request" where
  "Director inject now backend_value request =
     (case backend_value of
        None \<Rightarrow> request
      | Some backend \<Rightarrow>
          let target = TargetUrl backend;
              r1 = request\<lparr>rq_URL := (rq_URL request)\<lparr>Scheme := Scheme target, Host := Host target\<rparr>,
                           rq_Host := Host target\<rparr>;
              r2 = r1\<lparr>rq_URL := (rq_URL r1)\<lparr>UPath := singleJoiningSlash (UPath target) (UPath (rq_URL r1))\<rparr>\<rparr>;
              h0 = inject (rq_Header r2);
              host = (case SplitHostPort (rq_RemoteAddr r2) of Inl _ \<Rightarrow> rq_RemoteAddr r2 | Inr (host, _) \<Rightarrow> host);
              prior = header_Get h0 ''X-Forwarded-For'';
              h1 = (if prior \<noteq> '''' then header_Set ''X-Forwarded-For'' (prior @ '', '' @ host) h0
                    else header_Set ''X-Forwarded-For'' host h0);
              h2 = header_Set ''X-Origin-Host'' (Host target) h1;
              h3 = (if \<not> rq_TLS r2 then header_Set ''X-Forwarded-Proto'' ''http'' h2
                    else header_Set ''X-Forwarded-Proto'' ''https'' h2);
              h4 = header_Set ''X-Backend-Name'' (Name backend) h3;
              h5 = (if header_Get h4 ''X-Request-ID'' = ''''
                    then header_Set ''X-Request-ID'' (itoa now) h4 else h4)
          in r2\<lparr>rq_Header := h5\<rparr>)"

datatype forward_error = Canceled | DeadlineExceeded | OtherError

datatype reply = HttpError string int | StatusOnly int | Forwarded http_response

text \<open>A nil pool or health checker would be dereferenced; the gateway passes what it has.\<close>

definition ErrorHandler ::
  "Health \<Rightarrow> string \<Rightarrow> bref option \<Rightarrow> forward_error \<Rightarrow> pool \<Rightarrow> reply \<times> pool" where
  "ErrorHandler health service backend_value err bkPool =
     (let p' = (case backend_value of
                  Some backend \<Rightarrow> UpdateBackendStatus bkPool service (Name (heap bkPool backend)) False
                                    (GetHealthCheckInterval health)
                | None \<Rightarrow> bkPool)
      in if err = Canceled then (StatusOnly 499, p')
         else if err = DeadlineExceeded then (HttpError ''Gateway Timeout'' 504, p')
         else (HttpError ''Bad Gateway'' 502, p'))"

text \<open>
  \<open>ModifyResponse\<close> of the response to a request for \<open>path\<close>; \<open>None\<close> is a returned error.
  \<open>unmarshal\<close> gives the \<open>status\<close> member of a JSON object (\<open>None\<close> if the bytes are no such
  JSON) and \<open>marshal\<close> the bytes of the rewritten object for a status.
\<close>

definition ModifyResponse ::
  "(string \<Rightarrow> string option) \<Rightarrow> (string \<Rightarrow> string) \<Rightarrow> string \<Rightarrow> http_response \<Rightarrow> http_response option" where
  "ModifyResponse unmarshal marshal path response =
     (if path = ''/health'' then
        (case rs_Body response of
           None \<Rightarrow> None
         | Some bodyBytes \<Rightarrow>
             let h = header_Set ''X-Modified-By-Proxy'' ''true''
                       (header_Set ''Via'' ''1.1 go-mini-proxy'' (rs_Header response))
             in (case unmarshal bodyBytes of
                   None \<Rightarrow> Some (response\<lparr>rs_Header := h, rs_Body := Some bodyBytes\<rparr>)
                 | Some st \<Rightarrow>
                     let currBody = marshal st
                     in Some (response\<lparr>rs_Header := header_Set ''Content-Length'' (itoa (int (length currBody))) h,
                                       rs_Body := Some currBody,
                                       rs_ContentLength := int (length currBody)\<rparr>)))
      else Some response)"

section \<open>Addresses\<close>

lemma index_byte_None: "index_byte c xs = None \<longleftrightarrow> c \<notin> set xs"
  by (induction xs) auto

lemma index_byte_append: "c \<notin> set xs \<Longrightarrow> index_byte c (xs @ c # ys) = Some (length xs)"
  by (induction xs) auto

lemma last_index_None: "last_index c xs = None \<longleftrightarrow> c \<notin> set xs"
  by (induction xs) (auto split: option.splits)

lemma last_index_append: "c \<notin> set ys \<Longrightarrow> last_index c (xs @ c # ys) = Some (length xs)"
  by (induction xs) (auto simp: last_index_None split: option.splits)

definition plain :: "string \<Rightarrow> bool" where
  "plain s \<longleftrightarrow> CHR '':'' \<notin> set s \<and> CHR ''['' \<notin> set s \<and> CHR '']'' \<notin> set s"

lemma SplitHostPort_plain:
  assumes "plain host" "plain port" "host \<noteq> ''''"
  shows "SplitHostPort (host @ '':'' @ port) = Inr (host, port)"
proof -
  have "last_index (CHR '':'') (host @ '':'' @ port) = Some (length host)"
    using assms last_index_append [of "CHR '':''" port host] by (simp add: plain_def)
  moreover have "(host @ '':'' @ port) ! 0 \<noteq> CHR ''[''"
    using assms by (cases host) (auto simp: plain_def)
  ultimately show ?thesis
    using assms by (simp add: SplitHostPort_def Let_def index_byte_None plain_def)
qed

lemma itoa_nat_plain: "plain (itoa (int n))"
proof -
  have "c \<notin> set (itoa (int n))" if "\<not> is_digit c" for c
    using nat_digits_digit [of c n] that by (auto simp: itoa_def)
  then show ?thesis by (simp add: plain_def is_digit_def)
qed

section \<open>The director\<close>

lemma canonical_keys:
  "CanonicalHeaderKey ''X-Forwarded-For'' = ''X-Forwarded-For''"
  "CanonicalHeaderKey ''X-Origin-Host'' = ''X-Origin-Host''"
  "CanonicalHeaderKey ''X-Forwarded-Proto'' = ''X-Forwarded-Proto''"
  "CanonicalHeaderKey ''X-Backend-Name'' = ''X-Backend-Name''"
  "CanonicalHeaderKey ''X-Request-ID'' = ''X-Request-Id''"
  "CanonicalHeaderKey ''Via'' = ''Via''"
  "CanonicalHeaderKey ''X-Modified-By-Proxy'' = ''X-Modified-By-Proxy''"
  "CanonicalHeaderKey ''Content-Length'' = ''Content-Length''"
  by code_simp+

lemma header_Get_Set:
  "header_Get (header_Set k v h) k' =
     (if CanonicalHeaderKey k' = CanonicalHeaderKey k then v else header_Get h k')"
  by (simp add: header_Get_def header_Set_def)

lemma header_Set_apply: "header_Set k v h k' = (if k' = CanonicalHeaderKey k then Some [v] else h k')"
  by (simp add: header_Set_def)

lemma singleJoiningSlash_eq:
  "singleJoiningSlash a b =
     (if HasSuffix a ''/'' then butlast a else a) @ ''/'' @ (if HasPrefix b ''/'' then tl b else b)"
proof -
  have "a = butlast a @ ''/''" if "HasSuffix a ''/''"
    using that by (auto simp: HasSuffix_iff)
  moreover have "b = ''/'' @ tl b" if "HasPrefix b ''/''"
    using that by (auto simp: HasPrefix_iff)
  ultimately show ?thesis
    by (auto simp: singleJoiningSlash_def Let_def drop_Suc) (metis append.assoc append_Cons append_Nil)+
qed

lemma singleJoiningSlash_once:
  "\<exists>x y. singleJoiningSlash a b = x @ ''/'' @ y \<and> (a = x @ ''/'' \<or> a = x \<and> \<not> HasSuffix x ''/'') \<and>
     (b = ''/'' @ y \<or> b = y \<and> \<not> HasPrefix y ''/'')"
proof -
  have a: "a = butlast a @ ''/''" if "HasSuffix a ''/''" using that by (auto simp: HasSuffix_iff)
  have b: "b = ''/'' @ tl b" if "HasPrefix b ''/''" using that by (auto simp: HasPrefix_iff)
  let ?x = "if HasSuffix a ''/'' then butlast a else a" and ?y = "if HasPrefix b ''/'' then tl b else b"
  have "a = ?x @ ''/'' \<or> a = ?x \<and> \<not> HasSuffix ?x ''/''" using a by (cases "HasSuffix a ''/''") simp_all
  moreover have "b = ''/'' @ ?y \<or> b = ?y \<and> \<not> HasPrefix ?y ''/''" using b by (cases "HasPrefix b ''/''") simp_all
  ultimately show ?thesis unfolding singleJoiningSlash_eq by blast
qed

definition client_host :: "http_request \<Rightarrow> string" where
  "client_host r = (case SplitHostPort (rq_RemoteAddr r) of Inl _ \<Rightarrow> rq_RemoteAddr r | Inr (host, _) \<Rightarrow> host)"

text \<open>
  The forwarded request: it goes to the host and scheme of the chosen backend, its path is
  the backend's path and the original path joined by exactly one slash, the client's host is
  appended to \<open>X-Forwarded-For\<close>, protocol, backend and origin host are set whatever the client
  sent under these names, a request ID of the client is kept and a missing one is supplied, and
  method, body and every other header (after trace propagation) stay as they are.
\<close>

theorem Director_rewrites:
  assumes "r' = Director inject now (Some b) r" "h = inject (rq_Header r)"
  shows "Scheme (rq_URL r') = Scheme (TargetUrl b) \<and> Host (rq_URL r') = Host (TargetUrl b) \<and>
    rq_Host r' = Host (TargetUrl b) \<and>
    (\<exists>x y. UPath (rq_URL r') = x @ ''/'' @ y \<and> (UPath (TargetUrl b) = x @ ''/'' \<or> UPath (TargetUrl b) = x \<and> \<not> HasSuffix x ''/'') \<and>
       (UPath (rq_URL r) = ''/'' @ y \<or> UPath (rq_URL r) = y \<and> \<not> HasPrefix y ''/'')) \<and>
    header_Get (rq_Header r') ''X-Forwarded-For'' =
      (if header_Get h ''X-Forwarded-For'' = '''' then client_host r
       else header_Get h ''X-Forwarded-For'' @ '', '' @ client_host r) \<and>
    header_Get (rq_Header r') ''X-Origin-Host'' = Host (TargetUrl b) \<and>
    header_Get (rq_Header r') ''X-Forwarded-Proto'' = (if rq_TLS r then ''https'' else ''http'') \<and>
    header_Get (rq_Header r') ''X-Backend-Name'' = Name b \<and>
    header_Get (rq_Header r') ''X-Request-ID'' =
      (if header_Get h ''X-Request-ID'' = '''' then itoa now else header_Get h ''X-Request-ID'') \<and>
    (\<forall>k. k \<notin> {''X-Forwarded-For'', ''X-Origin-Host'', ''X-Forwarded-Proto'', ''X-Backend-Name'', ''X-Request-Id''} \<longrightarrow>
       rq_Header r' k = h k) \<and>
    rq_Method r' = rq_Method r \<and> rq_Body r' = rq_Body r \<and> rq_BodyClosed r' = rq_BodyClosed r"
proof -
  have "UPath (rq_URL r') = singleJoiningSlash (UPath (TargetUrl b)) (UPath (rq_URL r))"
    by (simp add: assms(1) Director_def Let_def)
  then show ?thesis
    using singleJoiningSlash_once [of "UPath (TargetUrl b)" "UPath (rq_URL r)"]
    by (intro conjI)
       (simp_all add: assms Director_def Let_def client_host_def header_Get_Set canonical_keys header_Set_apply
          split: sum.split)
qed

definition example_request :: http_request where
  "example_request =
     \<lparr>rq_Method = ''GET'', rq_URL = \<lparr>Scheme = '''', Host = '''', UPath = ''/a''\<rparr>, rq_Host = ''mesh'',
      rq_Header = [''X-Forwarded-For'' \<mapsto> [''1.1.1.1'']], rq_RemoteAddr = ''10.1.2.3:4711'',
      rq_TLS = False, rq_Body = '''', rq_BodyClosed = False\<rparr>"

theorem Director_rewrites_witness:
  "header_Get (rq_Header (Director id 5 (Some (fresh_backend ''a-0'' example_url)) example_request))
     ''X-Forwarded-For'' = ''1.1.1.1, 10.1.2.3''"
proof -
  have "header_Get (rq_Header example_request) ''X-Forwarded-For'' = ''1.1.1.1''"
    by (simp add: header_Get_def canonical_keys example_request_def)
  moreover have "client_host example_request = ''10.1.2.3''" by code_simp
  ultimately show ?thesis
    using Director_rewrites [OF refl refl, of id 5 "fresh_backend ''a-0'' example_url" example_request] by simp
qed

section \<open>Responses and errors\<close>

text \<open>
  A response is passed on unchanged unless the request was for \<open>/health\<close>; then it carries
  the proxy's \<open>Via\<close> and \<open>X-Modified-By-Proxy\<close> headers, a body that is not the expected JSON is
  kept byte for byte, and a rewritten body comes with its own length in \<open>ContentLength\<close> and in
  the \<open>Content-Length\<close> header. The only error is a body that cannot be read.
\<close>

theorem ModifyResponse_keeps_length:
  "(path \<noteq> ''/health'' \<longrightarrow> ModifyResponse un ma path resp = Some resp) \<and>
   (ModifyResponse un ma path resp = None \<longleftrightarrow> path = ''/health'' \<and> rs_Body resp = None) \<and>
   (\<forall>resp'. path = ''/health'' \<and> ModifyResponse un ma path resp = Some resp' \<longrightarrow>
      rs_StatusCode resp' = rs_StatusCode resp \<and>
      header_Get (rs_Header resp') ''Via'' = ''1.1 go-mini-proxy'' \<and>
      header_Get (rs_Header resp') ''X-Modified-By-Proxy'' = ''true'' \<and>
      (\<exists>body. rs_Body resp = Some body \<and>
         (case un body of
            None \<Rightarrow> rs_Body resp' = Some body \<and> rs_ContentLength resp' = rs_ContentLength resp
          | Some st \<Rightarrow> rs_Body resp' = Some (ma st) \<and> rs_ContentLength resp' = int (length (ma st)) \<and>
              header_Get (rs_Header resp') ''Content-Length'' = itoa (int (length (ma st))))))"
  by (auto simp: ModifyResponse_def Let_def header_Get_Set canonical_keys split: option.splits)

theorem ModifyResponse_keeps_length_witness:
  "rs_ContentLength (the (ModifyResponse (\<lambda>b. Some ''up'') (\<lambda>st. ''{'' @ st @ ''}'') ''/health''
     \<lparr>rs_StatusCode = 200, rs_Header = Map.empty, rs_Body = Some ''x'', rs_ContentLength = 1\<rparr>)) = 4"
proof -
  let ?un = "\<lambda>b :: string. Some ''up''" and ?ma = "\<lambda>st. ''{'' @ st @ ''}''"
  let ?r = "\<lparr>rs_StatusCode = 200, rs_Header = Map.empty, rs_Body = Some ''x'', rs_ContentLength = 1\<rparr>"
  obtain r' where r': "ModifyResponse ?un ?ma ''/health'' ?r = Some r'"
    using ModifyResponse_keeps_length [of "''/health''" ?un ?ma ?r] by fastforce
  then show ?thesis using ModifyResponse_keeps_length [of "''/health''" ?un ?ma ?r] by auto
qed

text \<open>
  A forwarding error marks the backend of the request as failed (and no other) and is
  answered with 499 for a cancelled request, 504 for a deadline and 502 for everything else.
\<close>

theorem ErrorHandler_marks_backend_down:
  assumes "pool_inv p" "Backends p s = Some bs" "r \<in> set bs"
    and "ErrorHandler health s (Some r) err p = (rep, p')"
  shows "\<not> Healthy (heap p' r) \<and> (\<forall>r'. r' \<noteq> r \<longrightarrow> heap p' r' = heap p r') \<and> pool_inv p' \<and>
    rep = (case err of Canceled \<Rightarrow> StatusOnly 499 | DeadlineExceeded \<Rightarrow> HttpError ''Gateway Timeout'' 504
           | OtherError \<Rightarrow> HttpError ''Bad Gateway'' 502)"
proof -
  have p': "p' = UpdateBackendStatus p s (Name (heap p r)) False (GetHealthCheckInterval health)"
    using assms(4) by (auto simp: ErrorHandler_def Let_def split: if_splits)
  then have "p' = emit (snd (UpdateStatus (heap p r) False (GetHealthCheckInterval health)))
      (upd r (\<lambda>b. fst (UpdateStatus b False (GetHealthCheckInterval health))) p)"
    using UpdateBackendStatus_hit [OF assms(2) pool_inv_service(1) [OF assms(1,2)] assms(3) refl] by simp
  moreover have "pool_inv p'" unfolding p' by (rule pool_inv_UpdateBackendStatus [OF assms(1)])
  ultimately show ?thesis
    using assms(4) by (cases err) (auto simp: ErrorHandler_def Let_def)
qed

theorem ErrorHandler_marks_backend_down_witness:
  "\<not> Healthy (heap (snd (ErrorHandler \<lparr>checkInterval = 10 * Second, stopCh = 0\<rparr> ''a'' (Some 0) Canceled loaded_pool)) 0)"
  using ErrorHandler_marks_backend_down [OF loaded_pool_inv, of "''a''" "[0]" 0, OF _ _ prod.collapse [symmetric]]
  by simp

end
