(* ===== verification/Proxy_Handler.thy ===== *)
theory Proxy_Handler
  imports Retry_Loop Reverse_Proxy Routing
begin

text \<open>
  \<open>pkg/proxy/handler.go\<close>: the request handler of the gateway. It looks up the service of a
  request and tries up to three backends of it. The transport is the parameter \<open>RoundTrip\<close>
  (its answer may differ from attempt to attempt), \<open>env\<close> is what the rest of the proxy does to
  the pool while an attempt waits for the transport, and the spans and logs are not modelled.
  The result says what was written to the client; \<open>None\<close> would be a handler that returns
  without writing anything.
\<close>

section \<open>State and operations\<close>

record ProxyHandler =
  ph_health :: Health
  ph_Director :: "(Backend option \<Rightarrow> http_request \<Rightarrow> http_request) option"
  ph_RoundTrip :: "nat \<Rightarrow> http_request \<Rightarrow> http_response option"
  ph_ModifyResponse :: "(string \<Rightarrow> http_response \<Rightarrow> http_response option) option"
  ph_router :: Router
  ph_env :: "nat \<Rightarrow> pool \<Rightarrow> pool"
  ph_duration :: duration

text \<open>
  What an activation of the handler works on: the balancer, the pool, the requests sent so far
  with their backends, and whether the shared body of the request was closed by a round trip.
\<close>

record handler_state =
  hs_lb :: LoadBalancer
  hs_pool :: pool
  hs_sent :: "(bref \<times> http_request) list"
  hs_bodyClosed :: bool

definition maxRetries :: nat where
  "maxRetries = 3"

text \<open>The clone of the request that an attempt sends to a backend, after the director.\<close>

definition out_request :: "ProxyHandler \<Rightarrow> http_request \<Rightarrow> bool \<Rightarrow> Backend \<Rightarrow> http_request" where
  "out_request h r closed b =
     (let r0 = r\<lparr>rq_BodyClosed := closed\<rparr> in case ph_Director h of None \<Rightarrow> r0 | Some d \<Rightarrow> d (Some b) r0)"

definition serve_attempt ::
  "ProxyHandler \<Rightarrow> http_request \<Rightarrow> string \<Rightarrow> nat \<Rightarrow> handler_state \<Rightarrow> reply option \<times> handler_state" where
  "serve_attempt h r serviceName attempt s =
     (case GetNextPeer (hs_lb s) (hs_pool s) serviceName of
        (Inl err, lb', p1) \<Rightarrow>
          (if attempt < maxRetries - 1 then None else Some (HttpError ''No backend available'' 503),
           s\<lparr>hs_lb := lb', hs_pool := p1\<rparr>)
      | (Inr backend, lb', p1) \<Rightarrow>
          let p2 = upd backend IncrementActiveRequests p1;
              name = Name (heap p2 backend);
              outReq = out_request h r (hs_bodyClosed s) (heap p2 backend);
              s2 = s\<lparr>hs_lb := lb', hs_sent := hs_sent s @ [(backend, outReq)], hs_bodyClosed := True\<rparr>;
              p3 = ph_env h attempt p2
          in (case ph_RoundTrip h attempt outReq of
                None \<Rightarrow>
                  let p4 = emit (RecordBackendFailure name) p3;
                      p5 = upd backend DecrementActiveRequests p4;
                      p6 = UpdateBackendStatus p5 serviceName name False (GetHealthCheckInterval (ph_health h))
                  in if attempt < maxRetries - 1
                     then (None, s2\<lparr>hs_pool := emit (RecordRetryAttempt name) p6\<rparr>)
                     else (Some (HttpError ''All backends failed'' 502), s2\<lparr>hs_pool := p6\<rparr>)
              | Some resp0 \<Rightarrow>
                  (case (case ph_ModifyResponse h of None \<Rightarrow> Some resp0 | Some f \<Rightarrow> f (UPath (rq_URL outReq)) resp0) of
                     None \<Rightarrow>
                       let p4 = upd backend DecrementActiveRequests p3
                       in if attempt < maxRetries - 1 then (None, s2\<lparr>hs_pool := p4\<rparr>)
                          else (Some (HttpError ''Internal error'' 500), s2\<lparr>hs_pool := p4\<rparr>)
                   | Some resp \<Rightarrow>
                       let p4 = upd backend DecrementActiveRequests p3;
                           p5 = emit (RecordRequest name (rq_Method r) (itoa (rs_StatusCode resp)) (ph_duration h)) p4
                       in (Some (Forwarded resp), s2\<lparr>hs_pool := p5\<rparr>))))"

definition serve_loop :: "ProxyHandler \<Rightarrow> http_request \<Rightarrow> string \<Rightarrow> handler_state \<Rightarrow> reply option \<times> handler_state" where
  "serve_loop h r serviceName s = retry_loop maxRetries (serve_attempt h r serviceName) 0 s"

text \<open>
  \<open>ServeHTTP\<close>. A router without table would panic (\<open>NilTable\<close>); the server then aborts the
  response, which is \<open>None\<close> here too.
\<close>

definition ServeHTTP :: "ProxyHandler \<Rightarrow> http_request \<Rightarrow> handler_state \<Rightarrow> reply option \<times> handler_state" where
  "ServeHTTP h r s =
     (let s0 = s\<lparr>hs_pool := emit RecordRequestStart (hs_pool s)\<rparr>;
          (res, s1) =
            (case FindService (ph_router h) (UPath (rq_URL r)) (rq_Method r) of
               Inl NilTable \<Rightarrow> (None, s0)
             | Inl err \<Rightarrow> (Some (HttpError ''No matching route'' 404), s0)
             | Inr serviceName \<Rightarrow> serve_loop h r serviceName s0)
      in (res, s1\<lparr>hs_pool := emit RecordRequestEnd (hs_pool s1)\<rparr>))"

section \<open>The retry contract\<close>

lemma serve_attempt_no_peer:
  assumes "fst (GetNextPeer (hs_lb s) (hs_pool s) svc) = Inl e"
  shows "serve_attempt h r svc a s =
    (if a < 2 then None else Some (HttpError ''No backend available'' 503),
     s\<lparr>hs_lb := fst (snd (GetNextPeer (hs_lb s) (hs_pool s) svc)),
       hs_pool := snd (snd (GetNextPeer (hs_lb s) (hs_pool s) svc))\<rparr>)"
  using assms by (cases "GetNextPeer (hs_lb s) (hs_pool s) svc") (auto simp: serve_attempt_def maxRetries_def)

lemma serve_attempt_sent:
  assumes "fst (GetNextPeer (hs_lb s) (hs_pool s) svc) = Inr b"
  shows "hs_sent (snd (serve_attempt h r svc a s)) =
    hs_sent s @ [(b, out_request h r (hs_bodyClosed s)
      (IncrementActiveRequests (heap (snd (snd (GetNextPeer (hs_lb s) (hs_pool s) svc))) b)))]"
  using assms by (cases "GetNextPeer (hs_lb s) (hs_pool s) svc")
    (auto simp: serve_attempt_def Let_def split: option.split)

interpretation gw: bounded_retry maxRetries "serve_attempt h r svc" "\<lambda>s. length (hs_sent s)" for h r svc
proof
  show "0 < maxRetries" by (simp add: maxRetries_def)
  show "fst (serve_attempt h r svc a s) \<noteq> None" if "a + 1 = maxRetries" for a s
    using that by (auto simp: serve_attempt_def maxRetries_def Let_def split: prod.split sum.split option.split)
  show "length (hs_sent (snd (serve_attempt h r svc a s))) \<le> Suc (length (hs_sent s))" for a s
    using serve_attempt_sent [of s svc _ h r a] serve_attempt_no_peer [of s svc _ h r a]
    by (cases "fst (GetNextPeer (hs_lb s) (hs_pool s) svc)") auto
qed


section \<open>Active requests\<close>

definition keeps_reach :: "(nat \<Rightarrow> pool \<Rightarrow> pool) \<Rightarrow> bool" where
  "keeps_reach env \<longleftrightarrow> (\<forall>n q fl. pool_reach (q, fl) \<longrightarrow> pool_reach (env n q, fl))"

lemma keeps_reachD: "keeps_reach env \<Longrightarrow> pool_reach (q, fl) \<Longrightarrow> pool_reach (env n q, fl)"
  by (simp add: keeps_reach_def)

lemma serve_attempt_reach:
  assumes "keeps_reach (ph_env h)" "pool_reach (hs_pool s, fl)"
  shows "pool_reach (hs_pool (snd (serve_attempt h r svc a s)), fl)"
proof (cases "fst (GetNextPeer (hs_lb s) (hs_pool s) svc)")
  case (Inl e)
  then show ?thesis using assms(2) serve_attempt_no_peer [OF Inl] by (simp add: pool_reach_GetNextPeer)
next
  case (Inr b)
  let ?p = "snd (snd (GetNextPeer (hs_lb s) (hs_pool s) svc))"
  have "pool_reach (ph_env h a (upd b IncrementActiveRequests ?p), add_mset b fl)"
    using pool_reach_acquire [OF assms(2) Inr] assms(1) by (auto simp: keeps_reach_def)
  then show ?thesis using Inr
    by (cases "GetNextPeer (hs_lb s) (hs_pool s) svc")
       (auto simp: serve_attempt_def Let_def intro!: pool_reach_intros split: option.split)
qed


section \<open>Retries\<close>

text \<open>The handler when nothing else runs and responses are not rejected.\<close>

definition undisturbed :: "ProxyHandler \<Rightarrow> bool" where
  "undisturbed h \<longleftrightarrow> ph_env h = (\<lambda>_ p. p) \<and>
     (case ph_ModifyResponse h of None \<Rightarrow> True | Some f \<Rightarrow> \<forall>path resp. f path resp \<noteq> None)"

fun is_forwarded :: "reply \<Rightarrow> bool" where
  "is_forwarded (Forwarded resp) = True"
| "is_forwarded _ = False"

lemma UpdateBackendStatus_emit:
  "\<exists>tr'. UpdateBackendStatus (emit tr p) s n h ci = (UpdateBackendStatus p s n h ci)\<lparr>calls := tr'\<rparr>"
proof (cases "case Backends p s of None \<Rightarrow> None | Some bs \<Rightarrow> find (\<lambda>r. Name (heap p r) = n) bs")
  case None
  then show ?thesis
    by (intro exI [of _ "calls p @ tr"]) (auto simp: UpdateBackendStatus_def emit_def split: option.splits)
next
  case (Some r)
  then show ?thesis
    by (intro exI [of _ "calls p @ tr @ snd (UpdateStatus (heap p r) h ci)"])
       (auto simp: UpdateBackendStatus_def emit_def upd_def split: option.splits)
qed

lemma serve_attempt_peer:
  assumes "fst (GetNextPeer (hs_lb s) (hs_pool s) svc) = Inr b" "undisturbed h"
  defines "p \<equiv> snd (snd (GetNextPeer (hs_lb s) (hs_pool s) svc))"
  shows "if ph_RoundTrip h a (out_request h r (hs_bodyClosed s) (IncrementActiveRequests (heap p b))) = None
    then fst (serve_attempt h r svc a s) =
        (if a < 2 then None else Some (HttpError ''All backends failed'' 502)) \<and>
      (\<exists>tr. hs_pool (snd (serve_attempt h r svc a s)) =
        emit tr (UpdateBackendStatus (emit (RecordBackendFailure (Name (heap p b))) p) svc (Name (heap p b)) False
          (GetHealthCheckInterval (ph_health h))))
    else \<exists>resp. fst (serve_attempt h r svc a s) = Some (Forwarded resp)"
proof -
  obtain lb' where g: "GetNextPeer (hs_lb s) (hs_pool s) svc = (Inr b, lb', p)"
    using assms(1) unfolding p_def by (metis prod.collapse)
  have undo: "upd b DecrementActiveRequests (emit tr (upd b IncrementActiveRequests p)) = emit tr p" for tr
    by (rule pool.equality) (auto simp: fun_eq_iff)
  let ?out = "out_request h r (hs_bodyClosed s) (IncrementActiveRequests (heap p b))"
  have env: "ph_env h = (\<lambda>_ p. p)" using assms(2) by (simp add: undisturbed_def)
  have q: "\<exists>tr. q = emit tr q" "\<exists>tr. emit x q = emit tr q" for q x by (auto intro: exI [of _ "[]"])
  show ?thesis
  proof (cases "ph_RoundTrip h a ?out")
    case None
    then show ?thesis using q by (simp add: serve_attempt_def g Let_def env undo maxRetries_def)
  next
    case (Some resp)
    show ?thesis
    proof (cases "ph_ModifyResponse h")
      case None
      then show ?thesis using Some by (simp add: serve_attempt_def g Let_def env)
    next
      case (Some f)
      then obtain y where "f (UPath (rq_URL ?out)) resp = Some y"
        using assms(2) by (auto simp: undisturbed_def)
      then show ?thesis using Some \<open>ph_RoundTrip h a ?out = Some resp\<close>
        by (simp add: serve_attempt_def g Let_def env)
    qed
  qed
qed

text \<open>An arbitrary handler, made undisturbed; an undisturbed one stays as it is.\<close>

definition calm :: "ProxyHandler \<Rightarrow> ProxyHandler" where
  "calm h = h\<lparr>ph_env := (\<lambda>_ p. p), ph_ModifyResponse :=
     map_option (\<lambda>f path resp. Some (case f path resp of None \<Rightarrow> resp | Some x \<Rightarrow> x)) (ph_ModifyResponse h)\<rparr>"

lemma undisturbed_calm [simp]: "undisturbed (calm h)"
  by (simp add: undisturbed_def calm_def split: option.split)

lemma calm_undisturbed: "undisturbed h \<Longrightarrow> calm h = h"
  by (rule ProxyHandler.equality)
     (auto simp: calm_def undisturbed_def fun_eq_iff split: option.splits)

lemma calm_health [simp]: "ph_health (calm h) = ph_health h"
  by (simp add: calm_def)

interpretation calm: retrying_client maxRetries "serve_attempt (calm h) r svc" "\<lambda>s. map fst (hs_sent s)"
  svc "GetHealthCheckInterval (ph_health h)" hs_lb hs_pool is_forwarded for h r svc
proof (unfold_locales, goal_cases)
  case 1
  show ?case by (rule gw.positive)
next
  case (2 a s)
  then show ?case by (rule gw.last_attempt)
next
  case (3 a s)
  then show ?case using gw.one_send [of "calm h" r svc a s] by simp
next
  case (4 s e a)
  then show ?case using serve_attempt_no_peer [OF 4] by simp
next
  case (5 s b a)
  then show ?case using serve_attempt_sent [OF 5] by simp
next
  case (6 s b a s')
  let ?p = "snd (snd (GetNextPeer (hs_lb s) (hs_pool s) svc))"
  obtain tr where "hs_pool s' = emit tr (UpdateBackendStatus (emit (RecordBackendFailure (Name (heap ?p b))) ?p)
      svc (Name (heap ?p b)) False (GetHealthCheckInterval (ph_health h)))"
    using serve_attempt_peer [OF 6(1) undisturbed_calm, of h a r] 6(2) by (auto split: if_splits)
  moreover obtain tr' where "UpdateBackendStatus (emit (RecordBackendFailure (Name (heap ?p b))) ?p)
      svc (Name (heap ?p b)) False (GetHealthCheckInterval (ph_health h)) =
      (UpdateBackendStatus ?p svc (Name (heap ?p b)) False (GetHealthCheckInterval (ph_health h)))\<lparr>calls := tr'\<rparr>"
    using UpdateBackendStatus_emit by blast
  moreover have "Name (heap ?p b) = Name (heap (hs_pool s) b)" by (rule same_backendsD(4) [OF GetNextPeer_same])
  ultimately have "hs_pool s' = (UpdateBackendStatus ?p svc (Name (heap (hs_pool s) b)) False
      (GetHealthCheckInterval (ph_health h)))\<lparr>calls := tr' @ tr\<rparr>"
    by (simp add: emit_def)
  then show ?case by (rule exI)
next
  case (7 a s x)
  have "\<not> a < 2"
  proof (cases "fst (GetNextPeer (hs_lb s) (hs_pool s) svc)")
    case (Inl e)
    then show ?thesis using 7 serve_attempt_no_peer [OF Inl, of "calm h" r a] by (auto split: if_splits)
  next
    case (Inr b)
    then show ?thesis using 7 serve_attempt_peer [OF Inr undisturbed_calm, of h a r] by (auto split: if_splits)
  qed
  then show ?case using 7(1) by (simp add: maxRetries_def)
qed

text \<open>
  Undisturbed, the handler never sends a request twice to the same backend: a backend whose
  round trip failed is marked unhealthy before the next selection.
\<close>

theorem gateway_retries_elsewhere:
  assumes "undisturbed h" "pool_inv (hs_pool s)" "hs_sent s = []"
  shows "distinct (map fst (hs_sent (snd (serve_loop h r svc s))))"
  using calm.tried_distinct [of s h r svc] assms(2,3) calm_undisturbed [OF assms(1)]
  by (simp add: serve_loop_def)

lemma no_healthy_503:
  assumes "pool_inv (hs_pool s)" "Backends (hs_pool s) svc = Some bs" "\<forall>b\<in>set bs. \<not> Healthy (heap (hs_pool s) b)"
  shows "fst (serve_loop h r svc s) = Some (HttpError ''No backend available'' 503)"
  unfolding serve_loop_def
proof (rule retry_loop_rule [where I = "\<lambda>a t. a < 3 \<and> pool_inv (hs_pool t) \<and> same_backends (hs_pool s) (hs_pool t)"
      and Q = "\<lambda>res _. res = Some (HttpError ''No backend available'' 503)"])
  have none: "\<exists>e. fst (GetNextPeer (hs_lb t) (hs_pool t) svc) = Inl e"
    if "pool_inv (hs_pool t)" "same_backends (hs_pool s) (hs_pool t)" for t
    unfolding lb.select_error_iff [OF that(1), of "hs_lb t" svc, simplified]
    using assms(2,3) same_backendsD(1,6) [OF that(2)] by simp
  have attempt: "fst (serve_attempt h r svc a t) = (if a < 2 then None else Some (HttpError ''No backend available'' 503)) \<and>
      pool_inv (hs_pool (snd (serve_attempt h r svc a t))) \<and>
      same_backends (hs_pool s) (hs_pool (snd (serve_attempt h r svc a t)))"
    if t: "pool_inv (hs_pool t)" "same_backends (hs_pool s) (hs_pool t)" for a t
  proof -
    obtain e where e: "fst (GetNextPeer (hs_lb t) (hs_pool t) svc) = Inl e" using none [OF t] by blast
    show ?thesis
      using serve_attempt_no_peer [OF e] GetNextPeer_inv [OF t(1)] same_backends_trans [OF t(2) GetNextPeer_same] by simp
  qed
  fix a t t' assume "a < 3 \<and> pool_inv (hs_pool t) \<and> same_backends (hs_pool s) (hs_pool t)" "serve_attempt h r svc a t = (None, t')"
  then show "Suc a < 3 \<and> pool_inv (hs_pool t') \<and> same_backends (hs_pool s) (hs_pool t')"
    using attempt [of t a] by (auto split: if_splits)
next
  fix a t x t' assume *: "a < 3 \<and> pool_inv (hs_pool t) \<and> same_backends (hs_pool s) (hs_pool t)" "serve_attempt h r svc a t = (Some x, t')"
  have "\<exists>e. fst (GetNextPeer (hs_lb t) (hs_pool t) svc) = Inl e"
    using * lb.select_error_iff [of "hs_pool t" "hs_lb t" svc] assms(2,3) same_backendsD(1,6) [of "hs_pool s" "hs_pool t"] by auto
  then show "Some x = Some (HttpError ''No backend available'' 503)"
    using * serve_attempt_no_peer [of t svc _ h r a] by (auto split: if_splits)
qed (use assms in \<open>auto simp: maxRetries_def\<close>)


section \<open>Failure metrics\<close>

text \<open>
  A failed round trip is counted twice: the handler calls \<open>RecordBackendFailure\<close> itself, and
  the report to the pool that follows calls it again, so the failure counter of the backend grows
  by two for one failed request.
\<close>

theorem failed_round_trip_counted_twice:
  assumes "undisturbed h" "pool_inv (hs_pool s)" "fst (GetNextPeer (hs_lb s) (hs_pool s) svc) = Inr b"
    and "\<forall>req. ph_RoundTrip h a req = None" "Name (heap (hs_pool s) b) = n"
  shows "incs circuitBreakerFailures [n] (calls (hs_pool (snd (serve_attempt h r svc a s)))) =
    incs circuitBreakerFailures [n] (calls (hs_pool s)) + 2"
proof -
  obtain lb' p where g: "GetNextPeer (hs_lb s) (hs_pool s) svc = (Inr b, lb', p)"
    using assms(3) by (metis prod.collapse)
  have same: "same_backends (hs_pool s) p" using GetNextPeer_same [of "hs_pool s" "hs_lb s" svc] g by simp
  obtain bs where bs: "Backends p svc = Some bs" "b \<in> set bs"
    using GetNextPeer_sound [OF assms(2,3)] same_backendsD(1) [OF same] by auto
  have inv: "pool_inv p" using GetNextPeer_inv [OF assms(2), of "hs_lb s" svc] g by simp
  have n: "Name (heap p b) = n" using assms(5) same_backendsD(4) [OF same] by simp
  have undo: "upd b DecrementActiveRequests (emit tr (upd b IncrementActiveRequests p)) = emit tr p" for tr
    by (rule pool.equality) (auto simp: fun_eq_iff)
  let ?ci = "GetHealthCheckInterval (ph_health h)"
  let ?p = "emit (RecordBackendFailure n) p"
  have hit: "UpdateBackendStatus ?p svc n False ?ci =
      emit (snd (UpdateStatus (heap p b) False ?ci)) (upd b (\<lambda>x. fst (UpdateStatus x False ?ci)) ?p)"
    using UpdateBackendStatus_hit [of ?p svc bs b n False ?ci] bs pool_inv_service(1) [OF inv bs(1)] n by simp
  have env: "ph_env h = (\<lambda>_ p. p)" using assms(1) by (simp add: undisturbed_def)
  have c: "calls p = calls (hs_pool s)" by (rule same_backendsD(3) [OF same])
  have "incs circuitBreakerFailures [n] (snd (UpdateStatus (heap p b) False ?ci)) = 1"
    unfolding UpdateStatus_calls by (simp add: n metric_helper_defs)
  then show ?thesis
    using assms(4) hit
    by (auto simp: serve_attempt_def g Let_def env n undo c RecordBackendFailure_def RecordRetryAttempt_def)
qed

section \<open>Witnesses\<close>

definition example_handler :: "(nat \<Rightarrow> http_request \<Rightarrow> http_response option) \<Rightarrow> ProxyHandler" where
  "example_handler rt =
     \<lparr>ph_health = \<lparr>checkInterval = 10 * Second, stopCh = 0\<rparr>, ph_Director = Some (Director id 0),
      ph_RoundTrip = rt, ph_ModifyResponse = None,
      ph_router = UpdateRoutes [''b'', ''a''] [] example_table \<lparr>routingTable = None\<rparr>,
      ph_env = (\<lambda>_ p. p), ph_duration = 0\<rparr>"

definition example_state :: handler_state where
  "example_state = \<lparr>hs_lb = NewLoadBalancer ''round-robin'', hs_pool = loaded_pool, hs_sent = [], hs_bodyClosed = False\<rparr>"

definition ok_response :: http_response where
  "ok_response = \<lparr>rs_StatusCode = 200, rs_Header = Map.empty, rs_Body = Some ''ok'', rs_ContentLength = 2\<rparr>"

lemma example_undisturbed: "undisturbed (example_handler rt)"
  by (simp add: undisturbed_def example_handler_def)

lemma example_state_simps [simp]:
  "hs_pool example_state = loaded_pool" "hs_sent example_state = []"
  by (simp_all add: example_state_def)

lemma example_peer: "fst (GetNextPeer (hs_lb example_state) loaded_pool ''a'') = Inr 0"
proof -
  obtain r where "fst (GetNextPeer (hs_lb example_state) loaded_pool ''a'') = Inr r"
    using GetNextPeer_complete [OF loaded_pool_inv, of "''a''" "[0]" 0] by auto
  then show ?thesis using GetNextPeer_sound [OF loaded_pool_inv] by fastforce
qed



theorem gateway_retries_elsewhere_witness:
  "distinct (map fst (hs_sent (snd (serve_loop (example_handler (\<lambda>_ _. None)) example_request ''a'' example_state))))"
  by (rule gateway_retries_elsewhere) (simp_all add: example_undisturbed loaded_pool_inv)


theorem failed_round_trip_counted_twice_witness:
  "incs circuitBreakerFailures [''a-0'']
     (calls (hs_pool (snd (serve_attempt (example_handler (\<lambda>_ _. None)) example_request ''a'' 0 example_state)))) = 2"
proof -
  have "calls loaded_pool = []" by (simp add: loaded_pool_def UpdateBackends_def empty_pool_def)
  then show ?thesis
    using failed_round_trip_counted_twice [OF example_undisturbed, of example_state "''a''" 0 "\<lambda>_ _. None" 0 "''a-0''"]
      example_peer loaded_pool_inv by (simp add: example_handler_def)
qed

end
