(* ===== verification/Sidecar_Net.thy ===== *)
theory Sidecar_Net
  imports Reverse_Proxy Routing
begin

text \<open>
  The network layer of the sidecar: \<open>pkg/proxy/originaldst.go\<close> and, from
  \<open>pkg/proxy/listener.go\<close>, protocol detection, the connection that replays peeked bytes, the
  two-way copy, and the proxy for the health probes of the application. Bytes are characters.
  The answers of the kernel and of the HTTP client are parameters.
\<close>

section \<open>The original destination of a redirected connection\<close>

text \<open>What the system calls of \<open>getOriginalDst\<close> may answer; an \<open>Errno\<close> is not zero.\<close>

datatype sockopt_answer =
    NotTCPConn | SyscallConnFails | ControlFails | Errno nat | SockAddr "8 word list"

datatype dst_error = NotTCP | SyscallConnErr | ControlErr | GetsockoptFailed nat | NotAFInet nat

definition uint16_le :: "8 word \<Rightarrow> 8 word \<Rightarrow> nat" where
  "uint16_le a b = unat a + 256 * unat b"

definition uint16_be :: "8 word \<Rightarrow> 8 word \<Rightarrow> nat" where
  "uint16_be a b = 256 * unat a + unat b"

definition ipv4_string :: "8 word \<Rightarrow> 8 word \<Rightarrow> 8 word \<Rightarrow> 8 word \<Rightarrow> string" where
  "ipv4_string a b c d =
     itoa (uint a) @ ''.'' @ itoa (uint b) @ ''.'' @ itoa (uint c) @ ''.'' @ itoa (uint d)"

definition getOriginalDst :: "sockopt_answer \<Rightarrow> dst_error + string" where
  "getOriginalDst conn =
     (case conn of
        NotTCPConn \<Rightarrow> Inl NotTCP
      | SyscallConnFails \<Rightarrow> Inl SyscallConnErr
      | ControlFails \<Rightarrow> Inl ControlErr
      | Errno errno \<Rightarrow> Inl (GetsockoptFailed errno)
      | SockAddr raw \<Rightarrow>
          let family = uint16_le (raw ! 0) (raw ! 1)
          in if family \<noteq> 2 then Inl (NotAFInet family)
             else let port = uint16_be (raw ! 2) (raw ! 3);
                      ip = ipv4_string (raw ! 4) (raw ! 5) (raw ! 6) (raw ! 7)
                  in Inr (ip @ '':'' @ itoa (int port)))"

section \<open>Protocol detection\<close>

definition http2Preface :: string where
  "http2Preface = ''PRI * HTTP/2.0'' @ [CHR 0x0D, CHR 0x0A, CHR 0x0D, CHR 0x0A] @ ''SM'' @
     [CHR 0x0D, CHR 0x0A, CHR 0x0D, CHR 0x0A]"

definition httpMethods :: "string list" where
  "httpMethods = [''GET '', ''POST '', ''PUT '', ''DELETE '', ''HEAD '', ''OPTIONS '', ''PATCH '']"

definition detectProtocol :: "string \<Rightarrow> string" where
  "detectProtocol peeked =
     (if length peeked = 0 then ''RAW_TCP''
      else if length peeked \<ge> 3 \<and> peeked ! 0 = CHR 0x16 \<and> peeked ! 1 = CHR 0x03 \<and>
              (of_char (peeked ! 2) :: nat) \<ge> 1 \<and> (of_char (peeked ! 2) :: nat) \<le> 4
      then ''TLS''
      else if peeked = http2Preface then ''HTTP2''
      else if (\<exists>m\<in>set httpMethods. HasPrefix peeked m) then ''HTTP''
      else ''RAW_TCP'')"

section \<open>Replaying peeked bytes\<close>

text \<open>
  A connection under a \<open>replayConn\<close>: the bytes still to come. A read of it may return any
  number of the wanted bytes; \<open>grant\<close> is that number (at least one while bytes are left).
\<close>

record replayConn =
  rc_buf :: string
  rc_conn :: string

definition conn_Read :: "nat \<Rightarrow> nat \<Rightarrow> string \<Rightarrow> string \<times> string" where
  "conn_Read grant len conn =
     (let n = min len (max 1 grant) in (take n conn, drop n conn))"

definition replay_Read :: "nat \<Rightarrow> nat \<Rightarrow> replayConn \<Rightarrow> string \<times> replayConn" where
  "replay_Read grant len r =
     (if length (rc_buf r) > 0
      then let n = min len (length (rc_buf r)) in (take n (rc_buf r), r\<lparr>rc_buf := drop n (rc_buf r)\<rparr>)
      else let (bytes, conn') = conn_Read grant len (rc_conn r) in (bytes, r\<lparr>rc_conn := conn'\<rparr>))"

section \<open>Copying in both directions\<close>

text \<open>
  Each direction ends with an error or none, in either order; it then half-closes the writing
  side if that side knows how to (\<open>conn\<close> of its \<open>readWriter\<close> is set). The result is the
  returned error and which sides were half-closed.
\<close>

datatype copy_error = CopyEOF | CopyErr string

definition proxyBidirectional ::
  "bool \<Rightarrow> copy_error option \<Rightarrow> copy_error option \<Rightarrow> bool \<Rightarrow> bool \<Rightarrow> copy_error option \<times> bool \<times> bool" where
  "proxyBidirectional src_first err_src err_dst src_closer dst_closer =
     (let (err1, err2) = (if src_first then (err_src, err_dst) else (err_dst, err_src));
          res = (if err1 \<noteq> None \<and> err1 \<noteq> Some CopyEOF then err1
                 else if err2 \<noteq> None \<and> err2 \<noteq> Some CopyEOF then err2 else None)
      in (res, src_closer, dst_closer))"

section \<open>Probes of the application\<close>

text \<open>The sign of a decimal number and its digits.\<close>

definition split_sign :: "string \<Rightarrow> bool \<times> string" where
  "split_sign s =
     (case s of [] \<Rightarrow> (False, []) | c # cs \<Rightarrow>
        if c = CHR ''-'' then (True, cs) else if c = CHR ''+'' then (False, cs) else (False, s))"

text \<open>
  \<open>strconv.Atoi\<close>: the value it returns, also where it reports an error, which both callers
  ignore: 0 for a malformed number, the nearest bound for one that is out of range.
\<close>

definition Atoi :: "string \<Rightarrow> int" where
  "Atoi s =
     (let (neg, ds) = split_sign s;
          v = (if neg then - int (digits_val ds) else int (digits_val ds))
      in if ds = [] \<or> \<not> list_all is_digit ds then 0
         else if v \<ge> 2 ^ 63 then 2 ^ 63 - 1 else if v < - (2 ^ 63) then - (2 ^ 63) else v)"

record appHealthProbeConfig =
  hp_Port :: int
  hp_Path :: string

definition probe_key :: "string \<Rightarrow> string \<Rightarrow> string" where
  "probe_key container probeType = container @ ''-'' @ probeType"

definition load_probe ::
  "(string \<Rightarrow> string) \<Rightarrow> string \<Rightarrow> string \<Rightarrow> (string \<rightharpoonup> appHealthProbeConfig) \<Rightarrow> (string \<rightharpoonup> appHealthProbeConfig)" where
  "load_probe getenv serviceName probeType cache =
     (let portStr = getenv (''ANANSE_'' @ ToUpper probeType @ ''_PORT'')
      in if portStr \<noteq> ''''
         then let path0 = getenv (''ANANSE_'' @ ToUpper probeType @ ''_PATH'');
                  path = (if path0 = '''' then ''/health'' else path0)
              in cache(probe_key serviceName probeType \<mapsto> \<lparr>hp_Port = Atoi portStr, hp_Path = path\<rparr>)
         else cache)"

definition initProbeConfigs ::
  "(string \<Rightarrow> string) \<Rightarrow> (string \<rightharpoonup> appHealthProbeConfig) \<Rightarrow> (string \<rightharpoonup> appHealthProbeConfig)" where
  "initProbeConfigs getenv cache =
     (let serviceName = (if getenv ''SERVICE_NAME'' = '''' then ''app'' else getenv ''SERVICE_NAME'')
      in fold (load_probe getenv serviceName) [''liveness'', ''readiness'', ''startup''] cache)"

definition TrimPrefix :: "string \<Rightarrow> string \<Rightarrow> string" where
  "TrimPrefix s p = (if HasPrefix s p then drop (length p) s else s)"

text \<open>\<open>strings.SplitN(path, "/", 2)\<close>.\<close>

definition split_once :: "string \<Rightarrow> string list" where
  "split_once s =
     (case index_byte (CHR ''/'') s of None \<Rightarrow> [s] | Some i \<Rightarrow> [take i s, drop (i + 1) s])"

definition probe_type :: "string \<Rightarrow> string option" where
  "probe_type probeEndpoint =
     (if probeEndpoint = ''livez'' then Some ''liveness''
      else if probeEndpoint = ''readyz'' then Some ''readiness''
      else if probeEndpoint = ''startupz'' then Some ''startup'' else None)"

text \<open>The loops that copy a header, key by key in the map's iteration order, value by value.\<close>

definition header_Add :: "string \<Rightarrow> string \<Rightarrow> header \<Rightarrow> header" where
  "header_Add k v h =
     h(CanonicalHeaderKey k \<mapsto> (case h (CanonicalHeaderKey k) of None \<Rightarrow> [] | Some vs \<Rightarrow> vs) @ [v])"

definition copy_header :: "string list \<Rightarrow> header \<Rightarrow> header \<Rightarrow> header" where
  "copy_header order src dst = for_range order src (\<lambda>key values h. fold (header_Add key) values h) dst"

text \<open>
  \<open>query\<close> gives the query parameters, \<open>client_do\<close> what sending a request with a method, URL and
  header to the local application yields (building the request may fail as well; the texts of the
  errors come from the library). The result is the reply and the request that was sent.
\<close>

datatype local_answer = NewRequestFails string | LocalDoErr string | LocalResponse http_response

definition handleAppHealthProxy ::
  "(string \<rightharpoonup> appHealthProbeConfig) \<Rightarrow> (string \<Rightarrow> string) \<Rightarrow> (string \<Rightarrow> string \<Rightarrow> header \<Rightarrow> local_answer) \<Rightarrow>
   string list \<Rightarrow> string list \<Rightarrow> http_request \<Rightarrow> reply \<times> (string \<times> string \<times> header) option" where
  "handleAppHealthProxy cache query client_do order rorder r =
     (let parts = split_once (TrimPrefix (UPath (rq_URL r)) ''/app-health/'')
      in if length parts < 2
         then (HttpError ''invalid app-health path: expected /app-health/{container}/{livez|readyz|startupz}'' 400, None)
         else case probe_type (parts ! 1) of
                None \<Rightarrow> (HttpError (''unknown probe endpoint: '' @ parts ! 1) 400, None)
              | Some probeType \<Rightarrow>
                  let key = probe_key (parts ! 0) probeType;
                      config = (case cache key of
                        Some c \<Rightarrow> Some c
                      | None \<Rightarrow>
                          if query ''port'' \<noteq> ''''
                          then Some \<lparr>hp_Port = Atoi (query ''port''),
                                     hp_Path = (if query ''path'' = '''' then ''/health'' else query ''path'')\<rparr>
                          else None)
                  in (case config of
                        None \<Rightarrow> (HttpError (''no probe config found for '' @ key) 404, None)
                      | Some c \<Rightarrow>
                          let targetURL = ''http://127.0.0.1:'' @ itoa (hp_Port c) @ hp_Path c;
                              h = copy_header order (rq_Header r) Map.empty
                          in (case client_do (rq_Method r) targetURL h of
                                NewRequestFails e \<Rightarrow> (HttpError (''failed to create proxy request: '' @ e) 500, None)
                              | LocalDoErr e \<Rightarrow>
                                  (HttpError (''app health check failed: '' @ e) 503, Some (rq_Method r, targetURL, h))
                              | LocalResponse resp \<Rightarrow>
                                  (Forwarded (resp\<lparr>rs_Header := copy_header rorder (rs_Header resp) Map.empty\<rparr>),
                                   Some (rq_Method r, targetURL, h)))))"

section \<open>Destinations\<close>

lemma join_first_inj:
  assumes "s @ c # x = t @ c # y" "c \<notin> set s" "c \<notin> set t"
  shows "s = t \<and> x = y"
proof -
  have "takeWhile (\<lambda>d. d \<noteq> c) (z @ c # w) = z" if "c \<notin> set z" for z w
    using that by (subst takeWhile_append2) auto
  from this [OF assms(2), of x] this [OF assms(3), of y] assms(1) have "s = t" by simp
  with assms(1) show ?thesis by simp
qed

lemma itoa_uint_plain: "\<not> is_digit c \<Longrightarrow> c \<notin> set (itoa (uint w))"
  using nat_digits_digit [of c "nat (uint w)"] by (auto simp: itoa_def)

lemma itoa_uint_inj: "itoa (uint (a :: 8 word)) = itoa (uint b) \<longleftrightarrow> a = b"
  by (simp add: word_uint_eq_iff)

lemma ipv4_string_inj:
  "ipv4_string a b c d = ipv4_string a' b' c' d' \<longleftrightarrow> a = a' \<and> b = b' \<and> c = c' \<and> d = d'"
proof
  assume eq: "ipv4_string a b c d = ipv4_string a' b' c' d'"
  have dot: "CHR ''.'' \<notin> set (itoa (uint w))" for w :: "8 word"
    by (rule itoa_uint_plain) (simp add: is_digit_def)
  note split = join_first_inj [OF _ dot dot]
  from eq have 1: "itoa (uint a) = itoa (uint a')"
      "itoa (uint b) @ ''.'' @ itoa (uint c) @ ''.'' @ itoa (uint d) =
       itoa (uint b') @ ''.'' @ itoa (uint c') @ ''.'' @ itoa (uint d')"
    using split [of a _ a'] by (simp_all add: ipv4_string_def)
  then have 2: "itoa (uint b) = itoa (uint b')"
      "itoa (uint c) @ ''.'' @ itoa (uint d) = itoa (uint c') @ ''.'' @ itoa (uint d')"
    using split [of b _ b'] by simp_all
  then have "itoa (uint c) = itoa (uint c')" "itoa (uint d) = itoa (uint d')"
    using split [of c "itoa (uint d)" c' "itoa (uint d')"] by simp_all
  with 1 2 show "a = a' \<and> b = b' \<and> c = c' \<and> d = d'" by (simp only: itoa_uint_inj)
qed simp

lemma getOriginalDst_ok:
  "uint16_le (raw ! 0) (raw ! 1) = 2 \<Longrightarrow>
   getOriginalDst (SockAddr raw) =
     Inr (vip_key (ipv4_string (raw ! 4) (raw ! 5) (raw ! 6) (raw ! 7)) (int (uint16_be (raw ! 2) (raw ! 3))))"
  by (simp add: getOriginalDst_def vip_key_def Let_def)

lemma uint16_be_inj: "uint16_be a b = uint16_be a' b' \<longleftrightarrow> a = a' \<and> b = b'"
proof
  assume "uint16_be a b = uint16_be a' b'"
  then have eq: "256 * unat a + unat b = 256 * unat a' + unat b'" by (simp add: uint16_be_def)
  have lt: "unat b < 256" "unat b' < 256" using unsigned_less [of b] unsigned_less [of b'] by simp_all
  have a: "unat a = unat a'" using eq lt by linarith
  with eq have "unat b = unat b'" by simp
  with a show "a = a' \<and> b = b'" by (simp add: word_unat_eq_iff)
qed simp

text \<open>
  The sidecar recovers the virtual IP of a redirected connection: the address that the
  kernel reports for an IPv4 socket finds, in the updated router, exactly the service with that
  cluster IP and port (if no two services share them), and two different destinations are never
  mistaken for each other.
\<close>

theorem original_dst_finds_service:
  assumes "uint16_le (raw ! 0) (raw ! 1) = 2" "getOriginalDst (SockAddr raw) = Inr target"
    and "range_order (Services rt) o2" "Services rt n = Some svc"
    and "ClusterIP svc = ipv4_string (raw ! 4) (raw ! 5) (raw ! 6) (raw ! 7)"
      "SPort svc = int (uint16_be (raw ! 2) (raw ! 3))" "SPort svc > 0"
    and "\<And>n n' svc svc'. Services rt n = Some svc \<Longrightarrow> Services rt n' = Some svc' \<Longrightarrow>
      ClusterIP svc = ClusterIP svc' \<Longrightarrow> SPort svc = SPort svc' \<Longrightarrow> ClusterIP svc \<noteq> '''' \<Longrightarrow> n = n'"
  shows "FindServiceByVIP (UpdateRoutes o1 o2 rt r) target = Inr n \<and>
    (\<forall>raw'. getOriginalDst (SockAddr raw') = Inr target \<longrightarrow>
      (\<forall>i\<in>{2..<8}. raw' ! i = raw ! i))"
proof
  have t: "target = vip_key (ClusterIP svc) (SPort svc)"
    using assms(2) unfolding getOriginalDst_ok [OF assms(1)] assms(5,6) by simp
  have "ClusterIP svc \<noteq> ''''" by (simp add: assms(5) ipv4_string_def)
  moreover have "\<forall>n svc. Services rt n = Some svc \<and> ClusterIP svc \<noteq> '''' \<and> SPort svc > 0 \<longrightarrow>
      FindServiceByVIP (UpdateRoutes o1 o2 rt r) (vip_key (ClusterIP svc) (SPort svc)) = Inr n"
    by (rule FindServiceByVIP_unique [OF assms(3), THEN conjunct1]) (rule assms(8))
  ultimately show "FindServiceByVIP (UpdateRoutes o1 o2 rt r) target = Inr n"
    unfolding t using assms(4,7) by blast
  show "\<forall>raw'. getOriginalDst (SockAddr raw') = Inr target \<longrightarrow> (\<forall>i\<in>{2..<8}. raw' ! i = raw ! i)"
  proof (intro allI impI ballI)
    fix raw' i assume d: "getOriginalDst (SockAddr raw') = Inr target" and i: "i \<in> {2..<8 :: nat}"
    then have "uint16_le (raw' ! 0) (raw' ! 1) = 2" by (auto simp: getOriginalDst_def Let_def split: if_splits)
    from d have "vip_key (ipv4_string (raw' ! 4) (raw' ! 5) (raw' ! 6) (raw' ! 7)) (int (uint16_be (raw' ! 2) (raw' ! 3))) = target"
      unfolding getOriginalDst_ok [OF \<open>uint16_le (raw' ! 0) (raw' ! 1) = 2\<close>] by simp
    also have "target = vip_key (ipv4_string (raw ! 4) (raw ! 5) (raw ! 6) (raw ! 7)) (int (uint16_be (raw ! 2) (raw ! 3)))"
      using assms(2) unfolding getOriginalDst_ok [OF assms(1)] by simp
    finally have "raw' ! 4 = raw ! 4 \<and> raw' ! 5 = raw ! 5 \<and> raw' ! 6 = raw ! 6 \<and> raw' ! 7 = raw ! 7 \<and>
        raw' ! 2 = raw ! 2 \<and> raw' ! 3 = raw ! 3"
      by (simp add: vip_key_inj ipv4_string_inj uint16_be_inj)
    moreover have "i = 2 \<or> i = 3 \<or> i = 4 \<or> i = 5 \<or> i = 6 \<or> i = 7" using i by auto
    ultimately show "raw' ! i = raw ! i" by metis
  qed
qed

definition example_sockaddr :: "8 word list" where
  "example_sockaddr = [2, 0, 0, 80, 10, 0, 0, 9]"

theorem original_dst_finds_service_witness:
  "FindServiceByVIP (UpdateRoutes [] [''b'', ''a''] example_table \<lparr>routingTable = None\<rparr>) ''10.0.0.9:80'' = Inr ''a''"
proof -
  have s: "Services example_table n = Some svc \<longleftrightarrow>
      n = ''a'' \<and> svc = routing_of (example_service ''a'' [''x'']) \<or>
      n = ''b'' \<and> svc = routing_of ((example_service ''b'' [''y''])\<lparr>svc_Port := 81\<rparr>)" for n svc
    by (auto simp: example_table_def services_of_def example_service_def split: if_splits)
  have 1: "uint16_le (example_sockaddr ! 0) (example_sockaddr ! 1) = 2" by code_simp
  have 2: "getOriginalDst (SockAddr example_sockaddr) = Inr ''10.0.0.9:80''" by code_simp
  have 3: "ipv4_string (example_sockaddr ! 4) (example_sockaddr ! 5) (example_sockaddr ! 6) (example_sockaddr ! 7) = ''10.0.0.9''"
    "uint16_be (example_sockaddr ! 2) (example_sockaddr ! 3) = 80" by code_simp+
  show ?thesis
    by (rule original_dst_finds_service [OF 1 2 example_table_order, of "''a''" "routing_of (example_service ''a'' [''x''])",
          THEN conjunct1])
       (auto simp: s 3 routing_of_def example_service_def)
qed

section \<open>Peeking loses nothing\<close>

fun replay_reads :: "(nat \<times> nat) list \<Rightarrow> replayConn \<Rightarrow> string \<times> replayConn" where
  "replay_reads [] r = ('''', r)"
| "replay_reads ((grant, len) # reads) r =
     (let (bytes, r') = replay_Read grant len r; (more, r'') = replay_reads reads r' in (bytes @ more, r''))"

text \<open>
  The connection that replays the peeked byte loses, adds and reorders nothing: whatever
  buffer sizes the reader uses and however the network splits the data, the bytes read so far
  followed by the bytes still to come are the peeked bytes followed by the connection's data.
\<close>

theorem replay_loses_nothing:
  "(case replay_reads reads r of (got, r') \<Rightarrow> got @ rc_buf r' @ rc_conn r' = rc_buf r @ rc_conn r)"
proof (induction reads arbitrary: r)
  case (Cons x reads)
  obtain grant len where x: "x = (grant, len)" by (cases x)
  obtain bytes r' where r': "replay_Read grant len r = (bytes, r')" by fastforce
  then have "bytes @ rc_buf r' @ rc_conn r' = rc_buf r @ rc_conn r"
    by (auto simp: replay_Read_def conn_Read_def Let_def split: if_splits)
  with Cons.IH [of r'] r' x show ?case by (auto split: prod.splits)
qed simp

section \<open>Protocols\<close>

lemma method_prefix_first:
  "HasPrefix p m \<Longrightarrow> m \<in> set httpMethods \<Longrightarrow> p \<noteq> [] \<and> p ! 0 \<in> set ''GPDHO''"
  by (auto simp: httpMethods_def HasPrefix_iff)

lemma detect_HTTP: "detectProtocol p = ''HTTP'' \<longleftrightarrow> (\<exists>m\<in>set httpMethods. HasPrefix p m)"
proof -
  have "\<not> (\<exists>m\<in>set httpMethods. HasPrefix http2Preface m)" by code_simp
  moreover have "p ! 0 \<noteq> CHR 0x16 \<and> p \<noteq> []" if "\<exists>m\<in>set httpMethods. HasPrefix p m"
    using that method_prefix_first by fastforce
  ultimately show ?thesis by (auto simp: detectProtocol_def)
qed

lemma HasPrefix_take: "length m \<le> n \<Longrightarrow> HasPrefix (take n s) m \<longleftrightarrow> HasPrefix s m"
  by (simp add: HasPrefix_def min_def)

lemma method_length: "m \<in> set httpMethods \<Longrightarrow> length m \<le> 8"
  by (auto simp: httpMethods_def)

text \<open>Twenty-four peeked bytes, and already eight, decide whether a stream is HTTP/1.\<close>

lemma detect_peeked: "8 \<le> k \<Longrightarrow> detectProtocol (take k s) = ''HTTP'' \<longleftrightarrow> (\<exists>m\<in>set httpMethods. HasPrefix s m)"
  unfolding detect_HTTP using HasPrefix_take method_length by (meson le_trans)

section \<open>Probes\<close>

lemma split_sign_itoa:
  assumes "0 \<le> k"
  shows "split_sign (itoa k) = (False, itoa k)" "digits_val (itoa k) = nat k" "list_all is_digit (itoa k)" "itoa k \<noteq> ''''"
proof -
  obtain c cs where d: "nat_digits (nat k) = c # cs" by (cases "nat_digits (nat k)") auto
  have i: "itoa k = nat_digits (nat k)" using assms by (simp add: itoa_def)
  have "is_digit c" using nat_digits_digit [of c "nat k"] d by simp
  then have "c \<noteq> CHR ''-''" "c \<noteq> CHR ''+''" by (auto simp: is_digit_def)
  then show "split_sign (itoa k) = (False, itoa k)" by (simp add: i d split_sign_def)
  show "digits_val (itoa k) = nat k" "list_all is_digit (itoa k)" "itoa k \<noteq> ''''"
    by (simp_all add: i nat_digits_all d [symmetric])
qed

lemma Atoi_itoa: "0 \<le> k \<Longrightarrow> k < 2 ^ 63 \<Longrightarrow> Atoi (itoa k) = k"
  using split_sign_itoa [of k] by (simp add: Atoi_def)

lemma split_once_path: "CHR ''/'' \<notin> set s \<Longrightarrow> split_once (s @ ''/'' @ t) = [s, t]"
  using index_byte_append [of "CHR ''/''" s t] by (simp add: split_once_def)

lemma load_probe_same:
  "getenv (''ANANSE_'' @ ToUpper k @ ''_PORT'') = p \<Longrightarrow> p \<noteq> '''' \<Longrightarrow>
   getenv (''ANANSE_'' @ ToUpper k @ ''_PATH'') = path \<Longrightarrow> path \<noteq> '''' \<Longrightarrow>
   load_probe getenv n k cache (probe_key n k) = Some \<lparr>hp_Port = Atoi p, hp_Path = path\<rparr>"
  by (simp add: load_probe_def)

lemma load_probe_other: "k \<noteq> k' \<Longrightarrow> load_probe getenv n k cache (probe_key n k') = cache (probe_key n k')"
  by (simp add: load_probe_def Let_def probe_key_def)

text \<open>A header as \<open>net/http\<close> delivers it: canonical keys, each with a value.\<close>

definition wf_header :: "header \<Rightarrow> bool" where
  "wf_header h \<longleftrightarrow> (\<forall>k vs. h k = Some vs \<longrightarrow> CanonicalHeaderKey k = k \<and> vs \<noteq> [])"

lemma fold_header_Add:
  "vs \<noteq> [] \<Longrightarrow> CanonicalHeaderKey k = k \<Longrightarrow>
   fold (header_Add k) vs h = h(k \<mapsto> (case h k of None \<Rightarrow> [] | Some us \<Rightarrow> us) @ vs)"
proof (induction vs arbitrary: h)
  case (Cons v vs)
  show ?case
  proof (cases "vs = []")
    case False
    have "fold (header_Add k) (v # vs) h = fold (header_Add k) vs (header_Add k v h)" by simp
    also have "\<dots> = (header_Add k v h)(k \<mapsto> (case header_Add k v h k of None \<Rightarrow> [] | Some us \<Rightarrow> us) @ vs)"
      by (rule Cons.IH [OF False Cons.prems(2)])
    also have "\<dots> = h(k \<mapsto> (case h k of None \<Rightarrow> [] | Some us \<Rightarrow> us) @ v # vs)"
      by (simp add: header_Add_def Cons.prems(2) del: fun_upd_apply) (simp add: fun_eq_iff)
    finally show ?thesis .
  qed (simp add: header_Add_def Cons.prems(2))
qed simp

lemma copy_header_id:
  assumes "wf_header h" "range_order h order"
  shows "copy_header order h Map.empty = h"
proof -
  have "for_range ks h (\<lambda>key values h. fold (header_Add key) values h) g = (\<lambda>k. if k \<in> set ks then h k else g k)"
    if "distinct ks" "set ks \<subseteq> dom h" "\<forall>k\<in>set ks. g k = None" for ks g
    using that
  proof (induction ks arbitrary: g)
    case (Cons k ks)
    obtain vs where vs: "h k = Some vs" using Cons.prems(2) by auto
    have "fold (header_Add k) vs g = g(k \<mapsto> vs)"
      using fold_header_Add [of vs k g] assms(1) vs Cons.prems(3) by (simp add: wf_header_def)
    moreover have "\<forall>k'\<in>set ks. (g(k \<mapsto> vs)) k' = None" using Cons.prems(1,3) by auto
    moreover have "for_range ks h (\<lambda>key values h. fold (header_Add key) values h) (g(k \<mapsto> vs)) =
        (\<lambda>k'. if k' \<in> set ks then h k' else (g(k \<mapsto> vs)) k')"
      using Cons.prems(1,2) calculation(2) by (intro Cons.IH) auto
    ultimately show ?case using vs by (auto simp del: fun_upd_apply) (auto simp: fun_eq_iff)
  qed auto
  from this [of order Map.empty] assms(2) show ?thesis
    by (auto simp: copy_header_def range_order_def fun_eq_iff)
qed

text \<open>
  The configuration of the probes and the probe proxy fit together: for a service whose
  name has no slash and whose environment sets the port (as a decimal number) and the path of
  a probe, the request \<open>/app-health/service/probe\<close> is forwarded, with its method and headers, to
  exactly that port and path of the local application, and its answer is passed on unchanged.
\<close>

theorem probe_config_roundtrip:
  assumes "getenv ''SERVICE_NAME'' = name" "name \<noteq> ''''" "CHR ''/'' \<notin> set name"
    and "(endpoint, kind) \<in> {(''livez'', ''liveness''), (''readyz'', ''readiness''), (''startupz'', ''startup'')}"
    and "getenv (''ANANSE_'' @ ToUpper kind @ ''_PORT'') = itoa port" "0 \<le> port" "port < 65536"
    and "getenv (''ANANSE_'' @ ToUpper kind @ ''_PATH'') = path" "path \<noteq> ''''"
    and "UPath (rq_URL r) = ''/app-health/'' @ name @ ''/'' @ endpoint"
    and "wf_header (rq_Header r)" "range_order (rq_Header r) order"
    and "client_do (rq_Method r) (''http://127.0.0.1:'' @ itoa port @ path) (rq_Header r) = LocalResponse resp"
    and "wf_header (rs_Header resp)" "range_order (rs_Header resp) rorder"
  shows "handleAppHealthProxy (initProbeConfigs getenv Map.empty) query client_do order rorder r =
    (Forwarded resp, Some (rq_Method r, ''http://127.0.0.1:'' @ itoa port @ path, rq_Header r))"
proof -
  have same: "load_probe getenv name kind cache (probe_key name kind) = Some \<lparr>hp_Port = port, hp_Path = path\<rparr>" for cache
    using load_probe_same [where getenv = getenv and k = kind and n = name and cache = cache, OF assms(5) _ assms(8,9)]
      Atoi_itoa [of port] assms(6,7) by simp
  have "kind = ''liveness'' \<or> kind = ''readiness'' \<or> kind = ''startup''" using assms(4) by auto
  then have cfg: "initProbeConfigs getenv Map.empty (probe_key name kind) = Some \<lparr>hp_Port = port, hp_Path = path\<rparr>"
    using same assms(1,2) load_probe_other by (elim disjE) (simp_all add: initProbeConfigs_def)
  have parts: "split_once (TrimPrefix (UPath (rq_URL r)) ''/app-health/'') = [name, endpoint]"
    using split_once_path [OF assms(3), of endpoint] by (simp add: assms(10) TrimPrefix_def HasPrefix_def)
  have kind: "probe_type endpoint = Some kind" using assms(4) by (auto simp: probe_type_def)
  have "probe_type ([name, endpoint] ! 1) = Some kind" "probe_key ([name, endpoint] ! 0) kind = probe_key name kind"
    using kind by simp_all
  moreover have "resp\<lparr>rs_Header := copy_header rorder (rs_Header resp) Map.empty\<rparr> = resp"
    using copy_header_id [OF assms(14,15)] by simp
  ultimately show ?thesis
    unfolding handleAppHealthProxy_def parts Let_def copy_header_id [OF assms(11,12)] using assms(13) cfg by simp
qed

definition example_getenv :: "string \<Rightarrow> string" where
  "example_getenv k =
     (if k = ''SERVICE_NAME'' then ''users'' else if k = ''ANANSE_LIVENESS_PORT'' then ''80''
      else if k = ''ANANSE_LIVENESS_PATH'' then ''/up'' else '''')"

definition example_answer :: http_response where
  "example_answer = \<lparr>rs_StatusCode = 200, rs_Header = Map.empty, rs_Body = Some '''', rs_ContentLength = 0\<rparr>"

definition example_probe :: http_request where
  "example_probe =
     \<lparr>rq_Method = ''GET'', rq_URL = \<lparr>Scheme = '''', Host = '''', UPath = ''/app-health/users/livez''\<rparr>, rq_Host = '''',
      rq_Header = [''Accept'' \<mapsto> [''a'', ''b'']], rq_RemoteAddr = ''10.0.0.1:9'', rq_TLS = False, rq_Body = '''',
      rq_BodyClosed = False\<rparr>"

theorem probe_config_roundtrip_witness:
  "handleAppHealthProxy (initProbeConfigs example_getenv Map.empty) (\<lambda>_. '''') (\<lambda>_ _ _. LocalResponse example_answer)
     [''Accept''] [] example_probe =
   (Forwarded example_answer, Some (rq_Method example_probe, ''http://127.0.0.1:'' @ itoa 80 @ ''/up'', rq_Header example_probe))"
proof -
  have i: "itoa 80 = ''80''" and u: "ToUpper ''liveness'' = ''LIVENESS''" and c: "CanonicalHeaderKey ''Accept'' = ''Accept''"
    by code_simp+
  have 1: "example_getenv ''SERVICE_NAME'' = ''users''" by (simp add: example_getenv_def)
  have 2: "example_getenv (''ANANSE_'' @ ToUpper ''liveness'' @ ''_PORT'') = itoa 80" by (simp add: example_getenv_def i u)
  have 3: "example_getenv (''ANANSE_'' @ ToUpper ''liveness'' @ ''_PATH'') = ''/up''" by (simp add: example_getenv_def u)
  have 4: "(''livez'', ''liveness'') \<in> {(''livez'', ''liveness''), (''readyz'', ''readiness''), (''startupz'', ''startup'')}"
    by blast
  have 5: "wf_header (rq_Header example_probe)" "range_order (rq_Header example_probe) [''Accept'']"
    "wf_header (rs_Header example_answer)" "range_order (rs_Header example_answer) []"
    by (simp_all add: wf_header_def example_probe_def example_answer_def c range_order_def)
  show ?thesis
    by (rule probe_config_roundtrip [OF 1 _ _ 4 2 _ _ 3 _ _ 5(1,2) _ 5(3,4)]) (simp_all add: example_probe_def)
qed

end
