(* ===== verification/Sidecar_Outbound.thy ===== *)
theory Sidecar_Outbound
  imports Retry_Loop Sidecar_Net Proxy_Handler
begin

text \<open>
  \<open>pkg/proxy/listener.go\<close>, \<open>handleOutboundConnection\<close>: a connection of the application that
  iptables redirected to the sidecar. An HTTP request to the virtual IP of a known service is
  balanced over the service's backends with up to three attempts; everything else is passed to
  the original destination. The network is a record of parameters: what the kernel, the client
  connection and each dialled backend answer; \<open>ob_env\<close> is what the rest of the proxy does to
  the pool while an attempt waits, and, at index \<open>maxRetries\<close>, while the connection is piped. Whether a backend is dialled with TLS does not matter to the
  handler beyond the outcome of the dial. Spans and logs are not modelled.
\<close>

section \<open>State and operations\<close>

record outbound_net =
  ob_dst :: sockopt_answer
  ob_peek :: string
  ob_ReadRequest :: "http_request option"
  ob_passDial :: bool
  ob_passWrite :: bool
  ob_passRead :: "http_response option"
  ob_dial :: "nat \<Rightarrow> string \<Rightarrow> bool"
  ob_write :: "nat \<Rightarrow> string \<Rightarrow> http_request \<Rightarrow> bool"
  ob_read :: "nat \<Rightarrow> string \<Rightarrow> http_request \<Rightarrow> http_response option"
  ob_clientWrite :: bool
  ob_remote :: string
  ob_now :: "nat \<Rightarrow> int"
  ob_duration :: "nat \<Rightarrow> duration"
  ob_total :: duration
  ob_inject :: "header \<Rightarrow> header"
  ob_env :: "nat \<Rightarrow> pool \<Rightarrow> pool"

record outbound_state =
  os_lb :: LoadBalancer
  os_pool :: pool
  os_req :: http_request
  os_sent :: "(bref \<times> http_request) list"

text \<open>How the retry loop ends: with a response of a backend, which is still held, or not.\<close>

datatype attempt_result = GaveUp | Got bref http_response

definition forward_headers :: "string \<Rightarrow> int \<Rightarrow> header \<Rightarrow> header" where
  "forward_headers remote now h =
     (let host = (case SplitHostPort remote of Inl _ \<Rightarrow> '''' | Inr (host, _) \<Rightarrow> host);
          prior = header_Get h ''X-Forwarded-For'';
          h1 = (if prior \<noteq> '''' then header_Set ''X-Forwarded-For'' (prior @ '', '' @ host) h
                else header_Set ''X-Forwarded-For'' host h);
          h2 = header_Set ''X-Forwarded-Proto'' ''http'' h1
      in if header_Get h2 ''X-Request-ID'' = '''' then header_Set ''X-Request-ID'' (itoa now) h2 else h2)"

text \<open>The bookkeeping after a failed dial, write or read.\<close>

definition attempt_failed :: "Health \<Rightarrow> string \<Rightarrow> string \<Rightarrow> bref \<Rightarrow> nat \<Rightarrow> pool \<Rightarrow> attempt_result option \<times> pool" where
  "attempt_failed health serviceName name backend attempt p =
     (let p1 = upd backend DecrementActiveRequests p;
          p2 = emit (RecordBackendFailure name) p1;
          p3 = UpdateBackendStatus p2 serviceName name False (GetHealthCheckInterval health)
      in if attempt < maxRetries - 1 then (None, emit (RecordRetryAttempt name) p3) else (Some GaveUp, p3))"

text \<open>Forwarding the request on a dialled connection and reading the response.\<close>

definition outbound_exchange ::
  "outbound_net \<Rightarrow> Health \<Rightarrow> string \<Rightarrow> nat \<Rightarrow> bref \<Rightarrow> string \<Rightarrow> string \<Rightarrow> pool \<Rightarrow> outbound_state \<Rightarrow>
   attempt_result option \<times> outbound_state" where
  "outbound_exchange net health serviceName attempt backend name host p s =
     (let req = (os_req s)\<lparr>rq_Header := forward_headers (ob_remote net) (ob_now net attempt) (rq_Header (os_req s))\<rparr>;
          s2 = s\<lparr>os_req := req, os_sent := os_sent s @ [(backend, req)]\<rparr>
      in if \<not> ob_write net attempt host req
         then (case attempt_failed health serviceName name backend attempt p of
                 (res, p') \<Rightarrow> (res, s2\<lparr>os_pool := p'\<rparr>))
         else (case ob_read net attempt host req of
                 None \<Rightarrow>
                   (case attempt_failed health serviceName name backend attempt p of
                      (res, p') \<Rightarrow> (res, s2\<lparr>os_pool := p'\<rparr>))
               | Some resp \<Rightarrow>
                   let p4 = (if rs_StatusCode resp \<ge> 500 then emit (RecordBackendFailure name) p else p);
                       p5 = emit (RecordRequest name (rq_Method req) (itoa (rs_StatusCode resp)) (ob_duration net attempt)) p4
                   in (Some (Got backend resp), s2\<lparr>os_pool := p5\<rparr>)))"

definition outbound_attempt ::
  "outbound_net \<Rightarrow> Health \<Rightarrow> string \<Rightarrow> nat \<Rightarrow> outbound_state \<Rightarrow> attempt_result option \<times> outbound_state" where
  "outbound_attempt net health serviceName attempt s =
     (case GetNextPeer (os_lb s) (os_pool s) serviceName of
        (Inl err, lb', p1) \<Rightarrow>
          (if attempt < maxRetries - 1 then None else Some GaveUp, s\<lparr>os_lb := lb', os_pool := p1\<rparr>)
      | (Inr backend, lb', p1) \<Rightarrow>
          let p2 = upd backend IncrementActiveRequests p1;
              name = Name (heap p2 backend);
              host = Host (TargetUrl (heap p2 backend));
              p3 = ob_env net attempt p2;
              s1 = s\<lparr>os_lb := lb'\<rparr>
          in if \<not> ob_dial net attempt host
             then (case attempt_failed health serviceName name backend attempt p3 of
                     (res, p') \<Rightarrow> (res, s1\<lparr>os_pool := p', os_sent := os_sent s @ [(backend, os_req s)]\<rparr>))
             else outbound_exchange net health serviceName attempt backend name host p3 s1)"

text \<open>What a connection ends in: closed without an answer, answered and closed, or answered (or
  not HTTP at all) and then piped to the given target until both sides close.\<close>

datatype conn_outcome = Dropped | Replied http_response | RepliedAndPiped http_response | RawPiped string

definition outbound_passthrough :: "outbound_net \<Rightarrow> conn_outcome" where
  "outbound_passthrough net =
     (if \<not> ob_passDial net then Dropped
      else if \<not> ob_passWrite net then Dropped
      else case ob_passRead net of None \<Rightarrow> Dropped | Some resp \<Rightarrow> Replied resp)"

definition skip_piping :: "string \<Rightarrow> bool" where
  "skip_piping path \<longleftrightarrow> path = ''/health'' \<or> path = ''/healthz'' \<or> path = ''/ready''"

definition outbound_http ::
  "outbound_net \<Rightarrow> Health \<Rightarrow> Router \<Rightarrow> string \<Rightarrow> http_request \<Rightarrow> outbound_state \<Rightarrow> conn_outcome \<times> outbound_state" where
  "outbound_http net health router target req0 s =
     (let req = req0\<lparr>rq_Header := ob_inject net (rq_Header req0)\<rparr>
      in case FindServiceByVIP router target of
           Inl err \<Rightarrow> (outbound_passthrough net, s\<lparr>os_req := req\<rparr>)
         | Inr serviceName \<Rightarrow>
             (case retry_loop maxRetries (outbound_attempt net health serviceName) 0 (s\<lparr>os_req := req\<rparr>) of
                (None, s') \<Rightarrow> (Dropped, s')
              | (Some GaveUp, s') \<Rightarrow> (Dropped, s')
              | (Some (Got backend resp), s') \<Rightarrow>
                  let p = os_pool s';
                      tr = RecordSidecarDuration ''outbound'' (itoa (rs_StatusCode resp)) (ob_total net);
                      (out, p') =
                        (if \<not> ob_clientWrite net then (Dropped, p)
                         else if skip_piping (UPath (rq_URL (os_req s'))) then (Replied resp, emit tr p)
                         else (RepliedAndPiped resp, ob_env net maxRetries (emit tr p)))
                  in (out, s'\<lparr>os_pool := upd backend DecrementActiveRequests p'\<rparr>)))"

text \<open>Other protocols are piped to the original destination.\<close>

definition outbound_raw :: "outbound_net \<Rightarrow> string \<Rightarrow> conn_outcome" where
  "outbound_raw net target = (if \<not> ob_passDial net then Dropped else RawPiped target)"

definition handleOutboundConnection ::
  "outbound_net \<Rightarrow> Health \<Rightarrow> Router \<Rightarrow> outbound_state \<Rightarrow> conn_outcome \<times> outbound_state" where
  "handleOutboundConnection net health router s =
     (let s0 = s\<lparr>os_pool := emit (RecordRequestStart @ RecordSidecarConnectionStart ''outbound'') (os_pool s)\<rparr>;
          (out, s1) =
            (case getOriginalDst (ob_dst net) of
               Inl err \<Rightarrow> (Dropped, s0)
             | Inr target \<Rightarrow>
                 let proto = detectProtocol (take 24 (ob_peek net));
                     s1 = s0\<lparr>os_pool := emit (RecordSidecarConnection ''outbound'' proto) (os_pool s0)\<rparr>
                 in if proto = ''HTTP''
                    then (case ob_ReadRequest net of
                            None \<Rightarrow> (Dropped, s1)
                          | Some req \<Rightarrow> outbound_http net health router target req s1)
                    else (outbound_raw net target, s1))
      in (out, s1\<lparr>os_pool := emit (RecordSidecarConnectionEnd ''outbound'' @ RecordRequestEnd) (os_pool s1)\<rparr>))"

section \<open>One attempt\<close>

lemma outbound_no_peer:
  assumes "fst (GetNextPeer (os_lb s) (os_pool s) svc) = Inl e"
  shows "outbound_attempt net health svc a s =
    (if a < 2 then None else Some GaveUp,
     s\<lparr>os_lb := fst (snd (GetNextPeer (os_lb s) (os_pool s) svc)),
       os_pool := snd (snd (GetNextPeer (os_lb s) (os_pool s) svc))\<rparr>)"
  using assms by (cases "GetNextPeer (os_lb s) (os_pool s) svc") (auto simp: outbound_attempt_def outbound_exchange_def maxRetries_def)

lemma attempt_failed_result:
  "fst (attempt_failed health svc n b a p) = (if a < 2 then None else Some GaveUp)"
  by (simp add: attempt_failed_def Let_def maxRetries_def)

lemma outbound_sent:
  assumes "fst (GetNextPeer (os_lb s) (os_pool s) svc) = Inr b"
  shows "map fst (os_sent (snd (outbound_attempt net health svc a s))) = map fst (os_sent s) @ [b]"
  using assms by (cases "GetNextPeer (os_lb s) (os_pool s) svc")
    (auto simp: outbound_attempt_def outbound_exchange_def Let_def split_beta split: option.split)

text \<open>An attempt with a peer either fails, with the bookkeeping of \<open>attempt_failed\<close>, or gets a response.\<close>

lemma outbound_peer:
  assumes "fst (GetNextPeer (os_lb s) (os_pool s) svc) = Inr b"
    and q: "q = ob_env net a (upd b IncrementActiveRequests (snd (snd (GetNextPeer (os_lb s) (os_pool s) svc))))"
  shows "(fst (outbound_attempt net health svc a s) =
        fst (attempt_failed health svc (Name (heap (snd (snd (GetNextPeer (os_lb s) (os_pool s) svc))) b)) b a q) \<and>
      os_pool (snd (outbound_attempt net health svc a s)) =
        snd (attempt_failed health svc (Name (heap (snd (snd (GetNextPeer (os_lb s) (os_pool s) svc))) b)) b a q)) \<or>
    (\<exists>resp tr. fst (outbound_attempt net health svc a s) = Some (Got b resp) \<and>
      os_pool (snd (outbound_attempt net health svc a s)) = emit tr q)"
proof -
  obtain lb' p where g: "GetNextPeer (os_lb s) (os_pool s) svc = (Inr b, lb', p)"
    using assms(1) by (metis prod.collapse)
  show ?thesis
    unfolding q by (auto simp: outbound_attempt_def outbound_exchange_def g Let_def split_beta split: option.split)
qed

interpretation ob: bounded_retry maxRetries "outbound_attempt net health svc" "\<lambda>s. length (os_sent s)"
  for net health svc
proof
  show "0 < maxRetries" by (simp add: maxRetries_def)
  show "fst (outbound_attempt net health svc a s) \<noteq> None" if "a + 1 = maxRetries" for a s
  proof (cases "fst (GetNextPeer (os_lb s) (os_pool s) svc)")
    case (Inl e)
    then show ?thesis using that outbound_no_peer [OF Inl] by (simp add: maxRetries_def)
  next
    case (Inr b)
    then show ?thesis using that outbound_peer [OF Inr refl, of net health a]
      by (auto simp: attempt_failed_result maxRetries_def)
  qed
  show "length (os_sent (snd (outbound_attempt net health svc a s))) \<le> Suc (length (os_sent s))" for a s
  proof (cases "fst (GetNextPeer (os_lb s) (os_pool s) svc)")
    case (Inr b)
    then show ?thesis using outbound_sent [OF Inr, of net health a] by (metis length_append_singleton length_map order_refl)
  qed (simp add: outbound_no_peer)
qed

section \<open>Active requests and gauges\<close>

lemma attempt_failed_reach:
  "pool_reach (p, add_mset b fl) \<Longrightarrow> pool_reach (snd (attempt_failed health svc n b a p), fl)"
  by (auto simp: attempt_failed_def Let_def intro!: pool_reach_intros)

definition holds :: "bref multiset \<Rightarrow> attempt_result option \<Rightarrow> outbound_state \<Rightarrow> bool" where
  "holds fl res s \<longleftrightarrow> pool_reach (os_pool s, case res of Some (Got b _) \<Rightarrow> add_mset b fl | _ \<Rightarrow> fl)"

lemma outbound_attempt_reach:
  assumes "keeps_reach (ob_env net)" "pool_reach (os_pool s, fl)"
  shows "holds fl (fst (outbound_attempt net health svc a s)) (snd (outbound_attempt net health svc a s))"
proof (cases "fst (GetNextPeer (os_lb s) (os_pool s) svc)")
  case (Inl e)
  then show ?thesis using assms(2) outbound_no_peer [OF Inl] by (simp add: holds_def pool_reach_GetNextPeer)
next
  case (Inr b)
  let ?q = "ob_env net a (upd b IncrementActiveRequests (snd (snd (GetNextPeer (os_lb s) (os_pool s) svc))))"
  have q: "pool_reach (?q, add_mset b fl)"
    using pool_reach_acquire [OF assms(2) Inr] assms(1) by (auto simp: keeps_reach_def)
  from outbound_peer [OF Inr refl, of net health a] show ?thesis
    using attempt_failed_reach [OF q] pool_reach_emit [OF q]
    by (auto simp: holds_def attempt_failed_result split: if_splits)
qed

lemma outbound_loop_reach:
  assumes "keeps_reach (ob_env net)" "pool_reach (os_pool s, fl)"
  shows "holds fl (fst (retry_loop maxRetries (outbound_attempt net health svc) 0 s))
    (snd (retry_loop maxRetries (outbound_attempt net health svc) 0 s))"
proof (rule retry_loop_rule [where I = "\<lambda>_ s. pool_reach (os_pool s, fl)" and Q = "holds fl"])
  fix a t t' assume "pool_reach (os_pool t, fl)" "outbound_attempt net health svc a t = (None, t')"
  then show "pool_reach (os_pool t', fl)"
    using outbound_attempt_reach [OF assms(1), of t fl health svc a] by (simp add: holds_def)
next
  fix a t x t' assume "pool_reach (os_pool t, fl)" "outbound_attempt net health svc a t = (Some x, t')"
  then show "holds fl (Some x) t'"
    using outbound_attempt_reach [OF assms(1), of t fl health svc a] by simp
qed (simp_all add: assms(2) holds_def)

lemma outbound_http_reach:
  assumes "keeps_reach (ob_env net)" "pool_reach (os_pool s, fl)"
  shows "pool_reach (os_pool (snd (outbound_http net health router target req s)), fl)"
proof (cases "FindServiceByVIP router target")
  case (Inl e)
  then show ?thesis using assms(2) by (simp add: outbound_http_def Let_def)
next
  case (Inr svc)
  let ?s = "s\<lparr>os_req := req\<lparr>rq_Header := ob_inject net (rq_Header req)\<rparr>\<rparr>"
  obtain res s' where l: "retry_loop maxRetries (outbound_attempt net health svc) 0 ?s = (res, s')" by fastforce
  have "holds fl res s'" using outbound_loop_reach [OF assms(1), of ?s fl health svc] assms(2) l by simp
  then show ?thesis using Inr l
    
    by (auto simp: outbound_http_def Let_def holds_def split_beta
        intro!: pool_reach_release pool_reach_emit keeps_reachD [OF assms(1)] split: option.split attempt_result.split)
qed

text \<open>
  C21. Whatever happens to an outbound connection (no original destination, unreadable request,
  unknown service, failed dials, writes or reads, a client that went away), every backend it
  took is given back: if the pool was reachable with the requests \<open>fl\<close> in flight, and stays so
  under the activity of the rest of the proxy, it is again when the handler returns.
\<close>

theorem outbound_releases_backends:
  assumes "pool_reach (os_pool s, fl)" "keeps_reach (ob_env net)"
    "handleOutboundConnection net health router s = (out, s')"
  shows "pool_reach (os_pool s', fl) \<and>
    (\<forall>b<next_ref (os_pool s'). ActiveRequest (heap (os_pool s') b) = of_nat (count fl b))"
proof -
  have "pool_reach (os_pool (snd (outbound_http net health router t r (s\<lparr>os_pool := emit tr (os_pool s)\<rparr>))), fl)" for t r tr
    using outbound_http_reach [OF assms(2)] pool_reach_emit [OF assms(1)] by simp
  then have "pool_reach (os_pool s', fl)"
    using assms(1,3)
    by (auto simp: handleOutboundConnection_def Let_def split_beta intro!: pool_reach_emit
        split: sum.splits option.splits if_splits)
  then show ?thesis using active_requests_accounted_aux by (auto simp: accounted_def)
qed

section \<open>Retries\<close>

definition calm_net :: "outbound_net \<Rightarrow> outbound_net" where
  "calm_net net = net\<lparr>ob_env := (\<lambda>_ p. p)\<rparr>"

fun is_got :: "attempt_result \<Rightarrow> bool" where
  "is_got (Got b resp) = True"
| "is_got GaveUp = False"

lemma attempt_failed_reports:
  "\<exists>tr. snd (attempt_failed health svc n b a (upd b IncrementActiveRequests p)) =
     (UpdateBackendStatus p svc n False (GetHealthCheckInterval health))\<lparr>calls := tr\<rparr>"
proof -
  have undo: "upd b DecrementActiveRequests (upd b IncrementActiveRequests p) = p"
    by (rule pool.equality) (auto simp: fun_eq_iff)
  obtain tr where "UpdateBackendStatus (emit (RecordBackendFailure n) p) svc n False (GetHealthCheckInterval health) =
      (UpdateBackendStatus p svc n False (GetHealthCheckInterval health))\<lparr>calls := tr\<rparr>"
    using UpdateBackendStatus_emit by blast
  then show ?thesis by (auto simp: attempt_failed_def undo Let_def emit_def)
qed

interpretation obr: retrying_client maxRetries "outbound_attempt (calm_net net) health svc"
  "\<lambda>s. map fst (os_sent s)" svc "GetHealthCheckInterval health" os_lb os_pool is_got for net health svc
proof (unfold_locales, goal_cases)
  case 1
  show ?case by (rule ob.positive)
next
  case (2 a s)
  then show ?case by (rule ob.last_attempt)
next
  case (3 a s)
  then show ?case using ob.one_send [of "calm_net net" health svc a s] by simp
next
  case (4 s e a)
  then show ?case using outbound_no_peer [OF 4] by simp
next
  case (5 s b a)
  then show ?case by (rule outbound_sent)
next
  case (6 s b a s')
  let ?p = "snd (snd (GetNextPeer (os_lb s) (os_pool s) svc))"
  have "os_pool s' = snd (attempt_failed health svc (Name (heap ?p b)) b a (upd b IncrementActiveRequests ?p))"
    using outbound_peer [OF 6(1) refl, of "calm_net net" health a] 6(2) by (auto simp: calm_net_def)
  moreover have "Name (heap ?p b) = Name (heap (os_pool s) b)" by (rule same_backendsD(4) [OF GetNextPeer_same])
  ultimately show ?case
    using attempt_failed_reports [of health svc "Name (heap (os_pool s) b)" b a ?p] by simp
next
  case (7 a s x)
  have "\<not> a < 2"
  proof (cases "fst (GetNextPeer (os_lb s) (os_pool s) svc)")
    case (Inl e)
    then show ?thesis using 7 outbound_no_peer [OF Inl, of "calm_net net" health a] by (auto split: if_splits)
  next
    case (Inr b)
    then show ?thesis using 7 outbound_peer [OF Inr refl, of "calm_net net" health a]
      by (auto simp: attempt_failed_result split: if_splits)
  qed
  then show ?case using 7(1) by (simp add: maxRetries_def)
qed


section \<open>Headers over the attempts\<close>

text \<open>
  The header that reaches the \<open>k\<close>-th dialled backend: the loop writes the forwarding headers
  into the one shared request.
\<close>

fun append_host :: "nat \<Rightarrow> string \<Rightarrow> string \<Rightarrow> string" where
  "append_host 0 host xff = xff"
| "append_host (Suc k) host xff =
     append_host k host (if xff \<noteq> '''' then xff @ '', '' @ host else host)"

lemma append_host_Suc:
  "append_host (Suc k) host xff =
     (if append_host k host xff \<noteq> '''' then append_host k host xff @ '', '' @ host else host)"
  by (induction k arbitrary: xff) simp_all

lemma forward_headers_xff:
  "SplitHostPort remote = Inr (host, port) \<Longrightarrow>
   header_Get (forward_headers remote now h) ''X-Forwarded-For'' =
     append_host 1 host (header_Get h ''X-Forwarded-For'')"
  by (simp add: forward_headers_def Let_def header_Get_Set canonical_keys)

definition xff_of :: "http_request \<Rightarrow> string" where
  "xff_of r = header_Get (rq_Header r) ''X-Forwarded-For''"

definition xff_inv :: "string \<Rightarrow> string \<Rightarrow> outbound_state \<Rightarrow> bool" where
  "xff_inv host prior s \<longleftrightarrow>
     xff_of (os_req s) = append_host (length (os_sent s)) host prior \<and>
     (\<forall>i<length (os_sent s). xff_of (snd (os_sent s ! i)) = append_host (Suc i) host prior)"

lemma xff_inv_attempt:
  assumes "xff_inv host prior s" "\<forall>a h. ob_dial net a h" "SplitHostPort (ob_remote net) = Inr (host, port)"
  shows "xff_inv host prior (snd (outbound_attempt net health svc a s))"
proof (cases "fst (GetNextPeer (os_lb s) (os_pool s) svc)")
  case (Inl e)
  then show ?thesis using assms(1) outbound_no_peer [OF Inl] by (simp add: xff_inv_def)
next
  case (Inr b)
  let ?req = "(os_req s)\<lparr>rq_Header := forward_headers (ob_remote net) (ob_now net a) (rq_Header (os_req s))\<rparr>"
  have s': "os_req (snd (outbound_attempt net health svc a s)) = ?req"
    "os_sent (snd (outbound_attempt net health svc a s)) = os_sent s @ [(b, ?req)]"
    using Inr assms(2) by (cases "GetNextPeer (os_lb s) (os_pool s) svc";
      auto simp: outbound_attempt_def outbound_exchange_def Let_def split_beta split: option.split)+
  have "xff_of ?req = append_host (Suc (length (os_sent s))) host prior"
    using forward_headers_xff [OF assms(3), of "ob_now net a" "rq_Header (os_req s)"] assms(1)
    unfolding append_host_Suc by (simp add: xff_of_def xff_inv_def)
  then show ?thesis
    using assms(1) unfolding xff_inv_def s' by (auto simp: nth_append less_Suc_eq simp del: append_host.simps)
qed

text \<open>
  The attempts of an outbound request share one request object: the request that reaches the
  \<open>k\<close>-th backend has the client's host \<open>k\<close> times at the end of \<open>X-Forwarded-For\<close>, although it
  passed the sidecar once (the gateway, which clones the request per attempt, appends it once).
\<close>

theorem outbound_retries_repeat_forwarded_for:
  assumes "\<forall>a h. ob_dial net a h" "SplitHostPort (ob_remote net) = Inr (host, port)" "os_sent s = []"
    and "retry_loop maxRetries (outbound_attempt net health svc) 0 s = (res, s')" "i < length (os_sent s')"
  shows "header_Get (rq_Header (snd (os_sent s' ! i))) ''X-Forwarded-For'' =
    append_host (Suc i) host (header_Get (rq_Header (os_req s)) ''X-Forwarded-For'')"
proof -
  have "xff_inv host (xff_of (os_req s)) (snd (retry_loop maxRetries (outbound_attempt net health svc) 0 s))"
  proof (rule retry_loop_rule [where I = "\<lambda>_. xff_inv host (xff_of (os_req s))" and Q = "\<lambda>_. xff_inv host (xff_of (os_req s))"])
    fix a t t' assume "xff_inv host (xff_of (os_req s)) t" "outbound_attempt net health svc a t = (None, t')"
    then show "xff_inv host (xff_of (os_req s)) t'" using xff_inv_attempt [OF _ assms(1,2), of "xff_of (os_req s)" t health svc a] by simp
  next
    fix a t x t' assume "xff_inv host (xff_of (os_req s)) t" "outbound_attempt net health svc a t = (Some x, t')"
    then show "xff_inv host (xff_of (os_req s)) t'" using xff_inv_attempt [OF _ assms(1,2), of "xff_of (os_req s)" t health svc a] by simp
  qed (simp_all add: xff_inv_def assms(3))
  then show ?thesis using assms(4,5) by (simp add: xff_inv_def xff_of_def del: append_host.simps)
qed

section \<open>Witnesses\<close>

definition example_net :: outbound_net where
  "example_net =
     \<lparr>ob_dst = SockAddr example_sockaddr, ob_peek = ''GET /a HTTP/1.1'', ob_ReadRequest = Some example_request,
      ob_passDial = False, ob_passWrite = False, ob_passRead = None, ob_dial = (\<lambda>_ _. True),
      ob_write = (\<lambda>_ _ _. True), ob_read = (\<lambda>_ _ _. Some ok_response), ob_clientWrite = True,
      ob_remote = ''10.1.2.3:4711'', ob_now = (\<lambda>_. 0), ob_duration = (\<lambda>_. 0), ob_total = 0, ob_inject = id, ob_env = (\<lambda>_ p. p)\<rparr>"

definition example_ostate :: outbound_state where
  "example_ostate =
     \<lparr>os_lb = NewLoadBalancer ''round-robin'', os_pool = loaded_pool, os_req = example_request, os_sent = []\<rparr>"

theorem outbound_releases_backends_witness:
  "pool_reach (os_pool (snd (handleOutboundConnection example_net \<lparr>checkInterval = 10 * Second, stopCh = 0\<rparr>
     (UpdateRoutes [] [''b'', ''a''] example_table \<lparr>routingTable = None\<rparr>) example_ostate)), {#})"
  using outbound_releases_backends [OF _ _ prod.collapse [symmetric], of example_ostate "{#}" example_net] loaded_pool_reach
  by (simp add: example_ostate_def example_net_def keeps_reach_def)


lemma example_sent:
  "length (os_sent (snd (retry_loop maxRetries (outbound_attempt example_net
     \<lparr>checkInterval = 10 * Second, stopCh = 0\<rparr> ''a'') 0 example_ostate))) = 1"
proof -
  have peer: "fst (GetNextPeer (os_lb example_ostate) (os_pool example_ostate) ''a'') = Inr 0"
    using example_peer by (simp add: example_ostate_def example_state_def)
  let ?r = "outbound_attempt example_net \<lparr>checkInterval = 10 * Second, stopCh = 0\<rparr> ''a'' 0 example_ostate"
  obtain x where "fst ?r = Some x"
    using peer by (cases "GetNextPeer (os_lb example_ostate) (os_pool example_ostate) ''a''")
      (auto simp: outbound_attempt_def outbound_exchange_def example_net_def Let_def)
  moreover have "length (os_sent (snd ?r)) = 1"
    using outbound_sent [OF peer, of example_net "\<lparr>checkInterval = 10 * Second, stopCh = 0\<rparr>" 0]
    by (simp add: example_ostate_def) (metis length_map length_Cons list.size(3) One_nat_def)
  ultimately show ?thesis
    by (cases ?r) (simp add: maxRetries_def retry_loop.simps [of 3 _ 0])
qed

theorem outbound_retries_repeat_forwarded_for_witness:
  "header_Get (rq_Header (snd (os_sent (snd (retry_loop maxRetries (outbound_attempt example_net
     \<lparr>checkInterval = 10 * Second, stopCh = 0\<rparr> ''a'') 0 example_ostate)) ! 0))) ''X-Forwarded-For'' =
   append_host (Suc 0) ''10.1.2.3'' ''1.1.1.1''"
proof -
  have split: "SplitHostPort (ob_remote example_net) = Inr (''10.1.2.3'', ''4711'')"
    using SplitHostPort_plain [of "''10.1.2.3''" "''4711''"] by (simp add: example_net_def plain_def)
  have prior: "header_Get (rq_Header (os_req example_ostate)) ''X-Forwarded-For'' = ''1.1.1.1''"
    by (simp add: header_Get_def canonical_keys example_ostate_def example_request_def)
  have dial: "\<forall>a h. ob_dial example_net a h" by (simp add: example_net_def)
  have sent: "os_sent example_ostate = []" by (simp add: example_ostate_def)
  show ?thesis
    unfolding prior [symmetric]
    by (rule outbound_retries_repeat_forwarded_for [OF dial split sent prod.collapse [symmetric]])
       (simp only: example_sent)
qed

end
