(* ===== verification/Sidecar_Inbound.thy ===== *)
theory Sidecar_Inbound
  imports Sidecar_Net
begin

text \<open>
  \<open>pkg/proxy/listener.go\<close>, the inbound side: \<open>startInboundListener\<close>, the detection of TLS on the
  first byte, \<open>handleInboundConnection\<close>, the half-closing of \<open>proxyBidirectional\<close>, and the routes of
  the admin server. A connection is the bytes its client sends before it waits for an answer;
  \<open>in_eof\<close> says whether it then closes its side. What the kernel, the application and the TLS
  library answer is a record of parameters. Spans and logs are not modelled, and a request head
  that \<open>http.ReadRequest\<close> cannot parse is the outcome \<open>None\<close> of \<open>in_ReadRequest\<close>.
\<close>

section \<open>Connections\<close>

text \<open>The dynamic types of a \<open>net.Conn\<close> that the code distinguishes; \<open>TLSConn\<close> carries what it
  decrypts to.\<close>

datatype net_conn = TCPConn string | ReplayConn replayConn | OtherConn

datatype client_conn = PlainConn net_conn | TLSConn net_conn string

fun conn_bytes :: "net_conn \<Rightarrow> string" where
  "conn_bytes (TCPConn s) = s"
| "conn_bytes (ReplayConn r) = rc_buf r @ rc_conn r"
| "conn_bytes OtherConn = ''''"

fun client_bytes :: "client_conn \<Rightarrow> string" where
  "client_bytes (PlainConn c) = conn_bytes c"
| "client_bytes (TLSConn c clear) = clear"

text \<open>The search for the TCP connection below: found, nil, or a failed type assertion.\<close>

datatype tcp_search = FoundTCP | NilTCP | AssertionPanic

fun tcpConn :: "client_conn \<Rightarrow> tcp_search" where
  "tcpConn (PlainConn (TCPConn _)) = FoundTCP"
| "tcpConn (TLSConn (ReplayConn _) _) = FoundTCP"
| "tcpConn (TLSConn (TCPConn _) _) = FoundTCP"
| "tcpConn (TLSConn OtherConn _) = AssertionPanic"
| "tcpConn (PlainConn (ReplayConn _)) = FoundTCP"
| "tcpConn (PlainConn OtherConn) = NilTCP"

text \<open>Whether the \<open>readWriter\<close> of the client gets a \<open>conn\<close>, without which \<open>CloseWrite\<close> does nothing.\<close>

fun clientConnCloser :: "client_conn \<Rightarrow> bool" where
  "clientConnCloser (PlainConn (TCPConn _)) = True"
| "clientConnCloser (TLSConn _ _) = True"
| "clientConnCloser (PlainConn _) = False"

record inbound_net =
  in_dst :: sockopt_answer
  in_eof :: bool
  in_handshake :: "string \<Rightarrow> string option"
  in_dial :: "string \<Rightarrow> bool"
  in_ReadRequest :: "string \<Rightarrow> http_request option"
  in_reqClose :: bool
  in_inject :: "header \<Rightarrow> header"
  in_write :: "http_request \<Rightarrow> bool"
  in_read :: "http_request \<Rightarrow> http_response option"
  in_respClose :: bool
  in_clientWrite :: bool
  in_duration :: duration

text \<open>
  \<open>reader.Peek(n)\<close> without a read deadline: it returns once \<open>n\<close> bytes are there or the stream has
  ended, and waits otherwise.
\<close>

definition bufio_Peek :: "nat \<Rightarrow> bool \<Rightarrow> string \<Rightarrow> string option" where
  "bufio_Peek n eof bytes = (if n \<le> length bytes \<or> eof then Some (take n bytes) else None)"

section \<open>Handling a connection\<close>

text \<open>
  How handling ends: closed without an answer, waiting for ever, a panic, answered and closed, or
  piped to the application, after an exchange or not, with the half-closers of both sides.
\<close>

datatype inbound_outcome =
    InClosed | InStalled | InPanicked
  | InReplied string http_request http_response
  | InPiped string "(http_request \<times> http_response) option" bool bool

definition inbound_http ::
  "inbound_net \<Rightarrow> string \<Rightarrow> bool \<Rightarrow> string \<Rightarrow> inbound_outcome \<times> metric_trace" where
  "inbound_http net target closer bytes =
     (case in_ReadRequest net bytes of
        None \<Rightarrow> (InClosed, [])
      | Some req0 \<Rightarrow>
          let req = req0\<lparr>rq_Header := in_inject net (rq_Header req0)\<rparr>
          in if \<not> in_write net req then (InClosed, [])
             else case in_read net req of
                    None \<Rightarrow> (InClosed, [])
                  | Some resp \<Rightarrow>
                      if \<not> in_clientWrite net then (InClosed, [])
                      else (if in_reqClose net \<or> in_respClose net \<or> Contains (UPath (rq_URL req)) ''/health''
                            then InReplied target req resp else InPiped target (Some (req, resp)) closer True,
                            RecordSidecarDuration ''inbound'' (itoa (rs_StatusCode resp)) (in_duration net)))"

definition inbound_forward :: "inbound_net \<Rightarrow> client_conn \<Rightarrow> inbound_outcome \<times> metric_trace" where
  "inbound_forward net clientConn =
     (case getOriginalDst (in_dst net) of
        Inl err \<Rightarrow> (InClosed, [])
      | Inr origDst \<Rightarrow>
          (case SplitHostPort origDst of
             Inl err \<Rightarrow> (InClosed, [])
           | Inr (_, port) \<Rightarrow>
               let target = JoinHostPort ''127.0.0.1'' port
               in if \<not> in_dial net target then (InClosed, [])
                  else case bufio_Peek 24 (in_eof net) (client_bytes clientConn) of
                         None \<Rightarrow> (InStalled, [])
                       | Some header \<Rightarrow>
                           let prtDetect = detectProtocol header;
                               tr = RecordSidecarConnection ''inbound'' prtDetect;
                               closer = clientConnCloser clientConn
                           in if prtDetect = ''HTTP''
                              then (case inbound_http net target closer (client_bytes clientConn) of
                                      (out, tr') \<Rightarrow> (out, tr @ tr'))
                              else (InPiped target None closer False, tr)))"

definition handleInboundConnection :: "inbound_net \<Rightarrow> client_conn \<Rightarrow> inbound_outcome \<times> metric_trace" where
  "handleInboundConnection net clientConn =
     (let start = RecordRequestStart @ RecordSidecarConnectionStart ''inbound'';
          finish = RecordSidecarConnectionEnd ''inbound'' @ RecordRequestEnd
      in case tcpConn clientConn of
           AssertionPanic \<Rightarrow> (InPanicked, start @ finish)
         | NilTCP \<Rightarrow> (InClosed, start @ finish)
         | FoundTCP \<Rightarrow>
             (case inbound_forward net clientConn of
                (InStalled, tr) \<Rightarrow> (InStalled, start @ tr)
              | (out, tr) \<Rightarrow> (out, start @ tr @ finish)))"

definition handleInboundWithDetection :: "inbound_net \<Rightarrow> net_conn \<Rightarrow> inbound_outcome \<times> metric_trace" where
  "handleInboundWithDetection net conn =
     (case conn_bytes conn of
        [] \<Rightarrow> (InClosed, [])
      | b # rest \<Rightarrow>
          (case conn of
             TCPConn _ \<Rightarrow>
               let rc = \<lparr>rc_buf = [b], rc_conn = rest\<rparr>
               in if b = CHR 0x16
                  then (case in_handshake net (conn_bytes (ReplayConn rc)) of
                          None \<Rightarrow> (InClosed, RecordTLSHandshake ''failed'')
                        | Some clear \<Rightarrow>
                            (case handleInboundConnection net (TLSConn (ReplayConn rc) clear) of
                               (out, tr) \<Rightarrow> (out, RecordTLSHandshake ''success'' @ RecordConnectionByTLS ''mtls'' @ tr)))
                  else (case handleInboundConnection net (PlainConn (ReplayConn rc)) of
                          (out, tr) \<Rightarrow> (out, RecordConnectionByTLS ''plain'' @ tr))
           | _ \<Rightarrow> (InClosed, [])))"

text \<open>One accepted connection; \<open>mtls\<close> says whether there is a certificate watcher.\<close>

definition startInboundListener :: "bool \<Rightarrow> inbound_net \<Rightarrow> net_conn \<Rightarrow> inbound_outcome \<times> metric_trace" where
  "startInboundListener mtls net conn =
     (if \<not> mtls then handleInboundConnection net (PlainConn conn) else handleInboundWithDetection net conn)"

section \<open>Half-closing\<close>

text \<open>
  The two goroutines of \<open>proxyBidirectional\<close>: each copies until its reader ends, then calls
  \<open>CloseWrite\<close> on its writer, which tells the peer behind it only if that side has a closer. The
  peers here are a client (\<open>src\<close>) that has sent everything and closed its sending side, and an
  application (\<open>dst\<close>) that finishes once it is told that nothing more comes.
\<close>

record pipe =
  src_ended :: bool
  dst_ended :: bool
  to_dst_done :: bool
  to_src_done :: bool
  dst_told :: bool
  src_told :: bool

definition pipe_start :: pipe where
  "pipe_start = \<lparr>src_ended = True, dst_ended = False, to_dst_done = False, to_src_done = False,
                 dst_told = False, src_told = False\<rparr>"

inductive pipe_step :: "bool \<Rightarrow> bool \<Rightarrow> pipe \<Rightarrow> pipe \<Rightarrow> bool" for src_closer dst_closer where
  copy_to_dst: "src_ended s \<Longrightarrow> \<not> to_dst_done s \<Longrightarrow>
    pipe_step src_closer dst_closer s (s\<lparr>to_dst_done := True, dst_told := dst_closer\<rparr>)"
| copy_to_src: "dst_ended s \<Longrightarrow> \<not> to_src_done s \<Longrightarrow>
    pipe_step src_closer dst_closer s (s\<lparr>to_src_done := True, src_told := src_closer\<rparr>)"
| app_ends: "dst_told s \<Longrightarrow> \<not> dst_ended s \<Longrightarrow>
    pipe_step src_closer dst_closer s (s\<lparr>dst_ended := True\<rparr>)"

definition pipe_returned :: "pipe \<Rightarrow> bool" where
  "pipe_returned s \<longleftrightarrow> to_dst_done s \<and> to_src_done s"

section \<open>The admin server\<close>

text \<open>The routes of the admin server, on the cleaned path of a request; \<open>metrics\<close> and
  \<open>app_health\<close> are the handlers behind two of them.\<close>

definition admin_route :: "bool \<Rightarrow> (int \<times> string) \<Rightarrow> (int \<times> string) \<Rightarrow> string \<Rightarrow> int \<times> string" where
  "admin_route sidecarReady metrics app_health path =
     (if path = ''/metrics'' then metrics
      else if path = ''/healthz'' then (200, ''ok'')
      else if path = ''/health'' then (200, ''ok'')
      else if path = ''/ready'' then (if sidecarReady then (200, ''ready'') else (503, ''not ready''))
      else if HasPrefix path ''/app-health/'' then app_health
      else (404, ''404 page not found'' @ [CHR 0x0A]))"

section \<open>The destination\<close>

lemma ipv4_string_plain: "plain (ipv4_string a b c d)" "ipv4_string a b c d \<noteq> ''''"
proof -
  have "plain (itoa (uint w))" for w :: "8 word" using itoa_nat_plain [of "unat w"] by simp
  then show "plain (ipv4_string a b c d)" by (simp add: ipv4_string_def plain_def)
  show "ipv4_string a b c d \<noteq> ''''" by (simp add: ipv4_string_def)
qed

lemma original_dst_port:
  assumes "uint16_le (raw ! 0) (raw ! 1) = 2"
  shows "\<exists>dst host. getOriginalDst (SockAddr raw) = Inr dst \<and>
    SplitHostPort dst = Inr (host, itoa (int (uint16_be (raw ! 2) (raw ! 3))))"
  using SplitHostPort_plain [OF ipv4_string_plain(1) itoa_nat_plain ipv4_string_plain(2)]
  by (auto simp: getOriginalDst_ok [OF assms] vip_key_def)

definition local_target :: "8 word list \<Rightarrow> string" where
  "local_target raw = ''127.0.0.1:'' @ itoa (int (uint16_be (raw ! 2) (raw ! 3)))"

text \<open>With an IPv4 destination, what is left of forwarding is dialling, peeking and exchanging.\<close>

lemma inbound_forward_ipv4:
  assumes "in_dst net = SockAddr raw" "uint16_le (raw ! 0) (raw ! 1) = 2"
  shows "inbound_forward net c =
    (if \<not> in_dial net (local_target raw) then (InClosed, [])
     else case bufio_Peek 24 (in_eof net) (client_bytes c) of
            None \<Rightarrow> (InStalled, [])
          | Some header \<Rightarrow>
              if detectProtocol header = ''HTTP''
              then (fst (inbound_http net (local_target raw) (clientConnCloser c) (client_bytes c)),
                    RecordSidecarConnection ''inbound'' (detectProtocol header) @
                      snd (inbound_http net (local_target raw) (clientConnCloser c) (client_bytes c)))
              else (InPiped (local_target raw) None (clientConnCloser c) False,
                    RecordSidecarConnection ''inbound'' (detectProtocol header)))"
proof -
  obtain dst host where "getOriginalDst (SockAddr raw) = Inr dst"
    "SplitHostPort dst = Inr (host, itoa (int (uint16_be (raw ! 2) (raw ! 3))))"
    using original_dst_port [OF assms(2)] by blast
  moreover have "JoinHostPort ''127.0.0.1'' p = ''127.0.0.1:'' @ p" for p
    by (simp add: JoinHostPort_def index_byte_None)
  ultimately show ?thesis
    by (simp add: inbound_forward_def assms(1) local_target_def Let_def split_beta split: option.split)
qed

section \<open>Properties\<close>

fun outcome_target :: "inbound_outcome \<Rightarrow> string option" where
  "outcome_target (InReplied t _ _) = Some t"
| "outcome_target (InPiped t _ _ _) = Some t"
| "outcome_target _ = None"

definition gauges_balanced :: "metric_trace \<Rightarrow> bool" where
  "gauges_balanced tr \<longleftrightarrow>
     (\<forall>ls. incs sidecarConnectionsActive ls tr = decs sidecarConnectionsActive ls tr) \<and>
     incs httpRequestsInFlight [] tr = decs httpRequestsInFlight [] tr"

lemma gauges_balanced_append: "gauges_balanced tr \<Longrightarrow> gauges_balanced tr' \<Longrightarrow> gauges_balanced (tr @ tr')"
  by (simp add: gauges_balanced_def)

lemma inbound_http_ok:
  "outcome_target (fst (inbound_http net target closer bytes)) \<in> {None, Some target} \<and>
   fst (inbound_http net target closer bytes) \<noteq> InPanicked \<and> fst (inbound_http net target closer bytes) \<noteq> InStalled \<and>
   gauges_balanced (snd (inbound_http net target closer bytes))"
  by (auto simp: inbound_http_def Let_def gauges_balanced_def metric_helper_defs split: option.split)

lemma inbound_forward_ok:
  assumes "in_dst net = SockAddr raw" "uint16_le (raw ! 0) (raw ! 1) = 2"
  shows "outcome_target (fst (inbound_forward net c)) \<in> {None, Some (local_target raw)} \<and>
    fst (inbound_forward net c) \<noteq> InPanicked \<and> gauges_balanced (snd (inbound_forward net c))"
  using inbound_http_ok [of net "local_target raw" "clientConnCloser c" "client_bytes c"]
  by (auto simp: inbound_forward_ipv4 [OF assms] gauges_balanced_def metric_helper_defs split: option.split)

definition inbound_ok :: "8 word list \<Rightarrow> inbound_outcome \<times> metric_trace \<Rightarrow> bool" where
  "inbound_ok raw r \<longleftrightarrow>
     outcome_target (fst r) \<in> {None, Some (local_target raw)} \<and> fst r \<noteq> InPanicked \<and>
     (fst r \<noteq> InStalled \<longrightarrow> gauges_balanced (snd r))"

lemma inbound_ok_closed: "gauges_balanced tr \<Longrightarrow> inbound_ok raw (InClosed, tr)"
  by (simp add: inbound_ok_def)

lemma inbound_ok_more: "inbound_ok raw r \<Longrightarrow> gauges_balanced tr \<Longrightarrow> inbound_ok raw (case r of (out, tr') \<Rightarrow> (out, tr @ tr'))"
  by (auto simp: inbound_ok_def gauges_balanced_append split_beta)

lemma tls_metrics_balanced:
  "gauges_balanced []" "gauges_balanced (RecordTLSHandshake res)" "gauges_balanced (RecordConnectionByTLS mode)"
  by (simp_all add: gauges_balanced_def metric_helper_defs)

lemma handleInboundConnection_ok:
  assumes "in_dst net = SockAddr raw" "uint16_le (raw ! 0) (raw ! 1) = 2" "tcpConn c = FoundTCP"
  shows "inbound_ok raw (handleInboundConnection net c)"
proof -
  obtain out tr where f: "inbound_forward net c = (out, tr)" by fastforce
  then show ?thesis using inbound_forward_ok [OF assms(1,2), of c] assms(3)
    by (cases out) (auto simp: handleInboundConnection_def inbound_ok_def gauges_balanced_def metric_helper_defs)
qed

lemma handleInboundWithDetection_ok:
  assumes "in_dst net = SockAddr raw" "uint16_le (raw ! 0) (raw ! 1) = 2"
  shows "inbound_ok raw (handleInboundWithDetection net (TCPConn bytes))"
proof (cases bytes)
  case Nil
  then show ?thesis by (simp add: handleInboundWithDetection_def inbound_ok_closed tls_metrics_balanced)
next
  case (Cons b rest)
  have ok: "tcpConn c = FoundTCP \<Longrightarrow> gauges_balanced tr \<Longrightarrow>
      inbound_ok raw (case handleInboundConnection net c of (out, tr') \<Rightarrow> (out, tr @ tr'))" for c tr
    by (rule inbound_ok_more [OF handleInboundConnection_ok [OF assms]])
  show ?thesis
  proof (cases "b = CHR 0x16")
    case True
    show ?thesis
    proof (cases "in_handshake net bytes")
      case None
      then show ?thesis using Cons True by (simp add: handleInboundWithDetection_def inbound_ok_closed tls_metrics_balanced)
    next
      case (Some clear)
      then show ?thesis
        using Cons True ok [of "TLSConn (ReplayConn \<lparr>rc_buf = [b], rc_conn = rest\<rparr>) clear",
            OF _ gauges_balanced_append [OF tls_metrics_balanced(2,3)], of "''success''" "''mtls''"]
        by (simp add: handleInboundWithDetection_def)
    qed
  next
    case False
    then show ?thesis
      using Cons ok [of "PlainConn (ReplayConn \<lparr>rc_buf = [b], rc_conn = rest\<rparr>)"] tls_metrics_balanced(3)
      by (simp add: handleInboundWithDetection_def)
  qed
qed

lemma handleInboundConnection_fst:
  "fst (handleInboundConnection net c) =
     (case tcpConn c of FoundTCP \<Rightarrow> fst (inbound_forward net c) | NilTCP \<Rightarrow> InClosed | AssertionPanic \<Rightarrow> InPanicked)"
proof -
  obtain out tr where "inbound_forward net c = (out, tr)" by fastforce
  then show ?thesis by (cases out) (auto simp: handleInboundConnection_def Let_def split: tcp_search.split)
qed

text \<open>
  C23. A redirected inbound connection reaches the local application only: whatever the client
  sends, with or without mTLS, the one address that is dialled is \<open>127.0.0.1\<close> with the port of the
  original destination; the handler never panics; and unless it waits for the client for ever,
  it takes back every increment of the connection gauges.
\<close>

theorem inbound_reaches_local_port:
  assumes "in_dst net = SockAddr raw" "uint16_le (raw ! 0) (raw ! 1) = 2"
    and "startInboundListener mtls net (TCPConn bytes) = (out, tr)"
  shows "outcome_target out \<in> {None, Some (''127.0.0.1:'' @ itoa (int (uint16_be (raw ! 2) (raw ! 3))))} \<and>
    out \<noteq> InPanicked \<and>
    (out \<noteq> InStalled \<longrightarrow>
      incs sidecarConnectionsActive [''inbound''] tr = decs sidecarConnectionsActive [''inbound''] tr \<and>
      incs httpRequestsInFlight [] tr = decs httpRequestsInFlight [] tr)"
proof -
  have "inbound_ok raw (startInboundListener mtls net (TCPConn bytes))"
    using handleInboundConnection_ok [OF assms(1,2)] handleInboundWithDetection_ok [OF assms(1,2)]
    by (simp add: startInboundListener_def)
  then show ?thesis by (simp add: assms(3) inbound_ok_def local_target_def gauges_balanced_def)
qed


text \<open>
  Unlike the outbound side, the inbound side peeks for 24 bytes without a deadline: a client
  that has sent fewer and waits for the answer is never served, whatever the protocol, and its
  connection stays in the gauges. A complete request may be that short.
\<close>

theorem short_inbound_message_stalls:
  assumes "in_dst net = SockAddr raw" "uint16_le (raw ! 0) (raw ! 1) = 2" "in_dial net (local_target raw)"
    and "length bytes < 24" "\<not> in_eof net"
  shows "fst (startInboundListener False net (TCPConn bytes)) = InStalled \<and>
    incs sidecarConnectionsActive [''inbound''] (snd (startInboundListener False net (TCPConn bytes))) = 1 \<and>
    decs sidecarConnectionsActive [''inbound''] (snd (startInboundListener False net (TCPConn bytes))) = 0"
  using assms(3-5)
  by (simp add: startInboundListener_def handleInboundConnection_def inbound_forward_ipv4 [OF assms(1,2)]
      bufio_Peek_def metric_helper_defs)

definition pipe_inv :: "bool \<Rightarrow> pipe \<Rightarrow> bool" where
  "pipe_inv dc s \<longleftrightarrow> src_ended s \<and> (dst_told s \<longleftrightarrow> dc \<and> to_dst_done s) \<and>
     (dst_ended s \<longrightarrow> dst_told s) \<and> (to_src_done s \<longrightarrow> dst_ended s)"

lemma pipe_inv_reach: "(pipe_step sc dc)\<^sup>*\<^sup>* pipe_start s \<Longrightarrow> pipe_inv dc s"
proof (induction rule: rtranclp_induct)
  case base
  show ?case by (simp add: pipe_inv_def pipe_start_def)
next
  case (step s t)
  from step(2,3) show ?case by (cases rule: pipe_step.cases) (auto simp: pipe_inv_def)
qed

text \<open>A pipe that can half-close the application side can always finish.\<close>

lemma pipe_can_finish:
  assumes "pipe_inv True s"
  shows "\<exists>t. (pipe_step sc True)\<^sup>*\<^sup>* s t \<and> pipe_returned t"
proof -
  obtain s1 where 1: "(pipe_step sc True)\<^sup>*\<^sup>* s s1" "pipe_inv True s1" "to_dst_done s1"
  proof (cases "to_dst_done s")
    case False
    then have "pipe_step sc True s (s\<lparr>to_dst_done := True, dst_told := True\<rparr>)"
      using assms by (intro copy_to_dst) (simp_all add: pipe_inv_def)
    then show ?thesis using that [of "s\<lparr>to_dst_done := True, dst_told := True\<rparr>"] assms by (auto simp: pipe_inv_def)
  qed (use assms that in blast)
  obtain s2 where 2: "(pipe_step sc True)\<^sup>*\<^sup>* s1 s2" "to_dst_done s2" "dst_ended s2"
  proof (cases "dst_ended s1")
    case False
    then have "pipe_step sc True s1 (s1\<lparr>dst_ended := True\<rparr>)" using 1(2,3) by (intro app_ends) (simp_all add: pipe_inv_def)
    then show ?thesis using that [of "s1\<lparr>dst_ended := True\<rparr>"] 1(3) by auto
  qed (use 1 that in blast)
  obtain s3 where 3: "(pipe_step sc True)\<^sup>*\<^sup>* s2 s3" "pipe_returned s3"
  proof (cases "to_src_done s2")
    case False
    then have "pipe_step sc True s2 (s2\<lparr>to_src_done := True, src_told := sc\<rparr>)" using 2(3) by (intro copy_to_src)
    then show ?thesis using that [of "s2\<lparr>to_src_done := True, src_told := sc\<rparr>"] 2(2) by (auto simp: pipe_returned_def)
  qed (use 2 that in \<open>auto simp: pipe_returned_def\<close>)
  show ?thesis using 1(1) 2(1) 3 by (meson rtranclp_trans)
qed

lemma pipe_finishes_iff:
  "(pipe_step sc dc)\<^sup>*\<^sup>* pipe_start s \<Longrightarrow> (\<exists>t. (pipe_step sc dc)\<^sup>*\<^sup>* s t \<and> pipe_returned t) \<longleftrightarrow> dc"
proof
  assume s: "(pipe_step sc dc)\<^sup>*\<^sup>* pipe_start s" and "\<exists>t. (pipe_step sc dc)\<^sup>*\<^sup>* s t \<and> pipe_returned t"
  then obtain t where "(pipe_step sc dc)\<^sup>*\<^sup>* pipe_start t" "pipe_returned t" by (meson rtranclp_trans)
  then show dc using pipe_inv_reach [of sc dc t] by (auto simp: pipe_inv_def pipe_returned_def)
next
  assume s: "(pipe_step sc dc)\<^sup>*\<^sup>* pipe_start s" and dc
  then show "\<exists>t. (pipe_step sc dc)\<^sup>*\<^sup>* s t \<and> pipe_returned t"
    using pipe_can_finish [of s sc] pipe_inv_reach [OF s] by simp
qed

text \<open>
  Half-closing decides whether \<open>proxyBidirectional\<close> returns. When a client has closed its sending
  side and the application ends once it sees the end of the data, then from every point of
  every schedule of an HTTP connection the two copies can finish; on an inbound connection of any
  other protocol they never do, because the target's \<open>readWriter\<close> is built without \<open>conn\<close>: the
  application is never told.
\<close>

theorem raw_inbound_half_close_lost:
  assumes "startInboundListener mtls net (TCPConn bytes) = (InPiped target exchange src_closer dst_closer, tr)"
    and "(pipe_step src_closer dst_closer)\<^sup>*\<^sup>* pipe_start s"
  shows "(\<exists>t. (pipe_step src_closer dst_closer)\<^sup>*\<^sup>* s t \<and> pipe_returned t) \<longleftrightarrow> exchange \<noteq> None"
proof -
  let ?closers = "\<lambda>out. \<forall>t e sc dc. out = InPiped t e sc dc \<longrightarrow> dc = (e \<noteq> None)"
  have "?closers (fst (inbound_forward net c))" for c
    by (auto simp: inbound_forward_def inbound_http_def Let_def split: sum.split option.split)
  then have handle: "?closers (fst (handleInboundConnection net c))" for c
    using handleInboundConnection_fst [of net c] by (cases "tcpConn c") simp_all
  have "?closers (fst (handleInboundWithDetection net (TCPConn bytes)))"
  proof (cases bytes)
    case (Cons b rest)
    then show ?thesis using handle by (auto simp: handleInboundWithDetection_def Let_def split_beta split: option.split)
  qed (simp add: handleInboundWithDetection_def)
  with handle have "?closers (fst (startInboundListener mtls net (TCPConn bytes)))"
    by (simp add: startInboundListener_def)
  then have "dst_closer = (exchange \<noteq> None)" using assms(1) by simp
  then show ?thesis using pipe_finishes_iff [OF assms(2)] by simp
qed

section \<open>Witnesses\<close>

text \<open>A client of a key-value store: an inline command of six bytes, or a longer one.\<close>

definition example_inbound :: inbound_net where
  "example_inbound =
     \<lparr>in_dst = SockAddr example_sockaddr, in_eof = False, in_handshake = (\<lambda>_. None), in_dial = (\<lambda>_. True),
      in_ReadRequest = (\<lambda>_. None), in_reqClose = False, in_inject = id, in_write = (\<lambda>_. True), in_read = (\<lambda>_. None),
      in_respClose = False, in_clientWrite = True, in_duration = 0\<rparr>"

lemma example_sockaddr_ipv4: "uint16_le (example_sockaddr ! 0) (example_sockaddr ! 1) = 2"
  by code_simp

lemma example_inbound_dst: "in_dst example_inbound = SockAddr example_sockaddr"
  by (simp add: example_inbound_def)

lemma example_long_piped:
  "fst (startInboundListener False example_inbound (TCPConn ''set key 0 0 5 value value'')) =
     InPiped (local_target example_sockaddr) None True False"
proof -
  have "detectProtocol ''set key 0 0 5 value valu'' \<noteq> ''HTTP''" by code_simp
  then show ?thesis
    by (simp add: startInboundListener_def handleInboundConnection_fst
        inbound_forward_ipv4 [OF example_inbound_dst example_sockaddr_ipv4])
       (simp add: bufio_Peek_def example_inbound_def)
qed

theorem inbound_reaches_local_port_witness:
  "outcome_target (fst (startInboundListener True example_inbound (TCPConn ''PING''))) \<in>
     {None, Some (''127.0.0.1:'' @ itoa (int (uint16_be (example_sockaddr ! 2) (example_sockaddr ! 3))))}"
  using inbound_reaches_local_port [OF example_inbound_dst example_sockaddr_ipv4 prod.collapse [symmetric]] by blast


theorem short_inbound_message_stalls_witness:
  "fst (startInboundListener False example_inbound (TCPConn ''PING'')) = InStalled"
proof -
  have "in_dial example_inbound (local_target example_sockaddr)" "length ''PING'' < 24" "\<not> in_eof example_inbound"
    by (simp_all add: example_inbound_def)
  from short_inbound_message_stalls [OF example_inbound_dst example_sockaddr_ipv4 this] show ?thesis by blast
qed

theorem raw_inbound_half_close_lost_witness:
  "\<not> (\<exists>t. (pipe_step True False)\<^sup>*\<^sup>* pipe_start t \<and> pipe_returned t)"
proof -
  obtain tr where "startInboundListener False example_inbound (TCPConn ''set key 0 0 5 value value'') =
      (InPiped (local_target example_sockaddr) None True False, tr)"
    using example_long_piped by (metis prod.collapse)
  from raw_inbound_half_close_lost [OF this rtranclp.rtrancl_refl] show ?thesis by simp
qed

end
