(* ===== verification/Control_Server.thy ===== *)
theory Control_Server
  imports Config_Types
begin

text \<open>
  \<open>controlplane/cmd/server.go\<close>: the server that streams configurations to the proxies. Every
  call of \<open>Subscribe\<close> is a session with a buffered channel of capacity 10; \<open>UpdateConfig\<close> puts
  the new configuration into the channel of every registered subscriber. The mutex makes the
  registration, the clean-up, \<open>UpdateConfig\<close> and \<open>Shutdown\<close> atomic; the sends on the gRPC
  streams run outside it, so the sessions interleave with everything else. A step takes its
  nondeterminism (does the send succeed, which subscriber comes first) as arguments, and its
  result is \<open>Panic\<close> where Go panics: a write to the nil map, a send on or a close of a closed
  channel; \<open>Blocked\<close> is a send on a full channel while the mutex is held.
\<close>

section \<open>State\<close>

record chan =
  ch_buf :: "pb_Config list"
  ch_closed :: bool

text \<open>
  A session: its proxy, its channel, the snapshot it has not sent yet, what it sent so far.
\<close>

record session_st =
  se_proxy :: string
  se_chan :: nat
  se_pending :: "pb_Config option"
  se_sent :: "pb_Config list"

record Server =
  currentConfig :: pb_Config
  subscribers :: "(string \<rightharpoonup> nat) option"
  version :: uint64
  chans :: "nat \<Rightarrow> chan"
  next_chan :: nat
  sessions :: "nat \<rightharpoonup> session_st"

datatype 'a outcome = Next 'a | Panic | Blocked | Disabled

definition NewServer :: "pb_Config option \<Rightarrow> int64 \<Rightarrow> Server" where
  "NewServer config now =
     (let base = \<lparr>cfg_Services = [],
                  cfg_ProxyConfig = Some \<lparr>pc_Port = 8089, pc_MetricsPort = 9090, pc_HealthCheckIntervalSeconds = 10\<rparr>,
                  cfg_LastUpdated = now, cfg_Version = ''0''\<rparr>;
          cfg = (case config of
                   None \<Rightarrow> base
                 | Some c \<Rightarrow>
                     let b1 = base\<lparr>cfg_Services := cfg_Services c\<rparr>
                     in (case cfg_ProxyConfig c of None \<Rightarrow> b1 | Some pc \<Rightarrow> b1\<lparr>cfg_ProxyConfig := Some pc\<rparr>))
      in \<lparr>currentConfig = cfg, subscribers = Some Map.empty, version = 0,
          chans = (\<lambda>_. \<lparr>ch_buf = [], ch_closed = False\<rparr>), next_chan = 0, sessions = Map.empty\<rparr>)"

section \<open>Subscribe\<close>

text \<open>Registration: the start of \<open>Subscribe\<close>, for a new session \<open>sid\<close>.\<close>

definition sub_register :: "nat \<Rightarrow> string \<Rightarrow> Server \<Rightarrow> Server outcome" where
  "sub_register sid proxyId s =
     (if sessions s sid \<noteq> None then Disabled
      else case subscribers s of
             None \<Rightarrow> Panic
           | Some subs \<Rightarrow>
               let ch = next_chan s
               in Next (s\<lparr>subscribers := Some (subs(proxyId \<mapsto> ch)), next_chan := ch + 1,
                          chans := (chans s)(ch := \<lparr>ch_buf = [], ch_closed = False\<rparr>),
                          sessions := (sessions s)(sid \<mapsto>
                            \<lparr>se_proxy = proxyId, se_chan = ch, se_pending = Some (currentConfig s), se_sent = []\<rparr>)\<rparr>))"

text \<open>The deferred clean-up.\<close>

definition sub_cleanup :: "nat \<Rightarrow> Server \<Rightarrow> Server outcome" where
  "sub_cleanup sid s =
     (case sessions s sid of
        None \<Rightarrow> Disabled
      | Some se \<Rightarrow>
          let s1 = s\<lparr>subscribers := map_option (\<lambda>subs. subs(se_proxy se := None)) (subscribers s)\<rparr>;
              c = chans s1 (se_chan se)
          in if ch_closed c then Panic
             else Next (s1\<lparr>chans := (chans s1)(se_chan se := c\<lparr>ch_closed := True\<rparr>),
                           sessions := (sessions s1)(sid := None)\<rparr>))"

text \<open>Sending the snapshot, and one round of the loop.\<close>

datatype sub_event = SendSnapshot bool | Receive bool | StreamDone

definition sub_step :: "nat \<Rightarrow> sub_event \<Rightarrow> Server \<Rightarrow> Server outcome" where
  "sub_step sid ev s =
     (case sessions s sid of
        None \<Rightarrow> Disabled
      | Some se \<Rightarrow>
          (case (se_pending se, ev) of
             (Some current, SendSnapshot ok) \<Rightarrow>
               if \<not> ok then sub_cleanup sid s
               else Next (s\<lparr>sessions := (sessions s)(sid \<mapsto> se\<lparr>se_pending := None, se_sent := se_sent se @ [current]\<rparr>)\<rparr>)
           | (None, Receive ok) \<Rightarrow>
               let c = chans s (se_chan se)
               in (case ch_buf c of
                     [] \<Rightarrow> if ch_closed c then sub_cleanup sid s else Disabled
                   | cfg # rest \<Rightarrow>
                       let s1 = s\<lparr>chans := (chans s)(se_chan se := c\<lparr>ch_buf := rest\<rparr>)\<rparr>
                       in if \<not> ok then sub_cleanup sid s1
                          else Next (s1\<lparr>sessions := (sessions s1)(sid \<mapsto> se\<lparr>se_sent := se_sent se @ [cfg]\<rparr>)\<rparr>))
           | (None, StreamDone) \<Rightarrow> sub_cleanup sid s
           | _ \<Rightarrow> Disabled))"

section \<open>UpdateConfig and Shutdown\<close>

text \<open>The push to one subscriber: the two nested \<open>select\<close>s.\<close>

definition push :: "pb_Config \<Rightarrow> chan \<Rightarrow> chan outcome" where
  "push cfg c =
     (if ch_closed c then Panic
      else if length (ch_buf c) < 10 then Next (c\<lparr>ch_buf := ch_buf c @ [cfg]\<rparr>)
      else let c1 = (case ch_buf c of [] \<Rightarrow> c | _ # rest \<Rightarrow> c\<lparr>ch_buf := rest\<rparr>)
           in if length (ch_buf c1) < 10 then Next (c1\<lparr>ch_buf := ch_buf c1 @ [cfg]\<rparr>) else Blocked)"

fun push_all :: "pb_Config \<Rightarrow> string list \<Rightarrow> (string \<rightharpoonup> nat) \<Rightarrow> (nat \<Rightarrow> chan) \<Rightarrow> (nat \<Rightarrow> chan) outcome" where
  "push_all cfg [] subs cs = Next cs"
| "push_all cfg (proxyID # order) subs cs =
     (case subs proxyID of
        None \<Rightarrow> push_all cfg order subs cs
      | Some ch \<Rightarrow>
          (case push cfg (cs ch) of
             Next c \<Rightarrow> push_all cfg order subs (cs(ch := c))
           | Panic \<Rightarrow> Panic | Blocked \<Rightarrow> Blocked | Disabled \<Rightarrow> Disabled))"

definition UpdateConfig :: "string list \<Rightarrow> pb_Config \<Rightarrow> int64 \<Rightarrow> Server \<Rightarrow> Server outcome" where
  "UpdateConfig order cfg0 now s =
     (let v = version s + 1;
          cfg = cfg0\<lparr>cfg_Version := ''v'' @ itoa (uint v), cfg_LastUpdated := now\<rparr>;
          s1 = s\<lparr>version := v, currentConfig := cfg\<rparr>
      in case push_all cfg order (case subscribers s of None \<Rightarrow> Map.empty | Some subs \<Rightarrow> subs) (chans s) of
           Next cs \<Rightarrow> Next (s1\<lparr>chans := cs\<rparr>)
         | Panic \<Rightarrow> Panic | Blocked \<Rightarrow> Blocked | Disabled \<Rightarrow> Disabled)"

fun close_all :: "string list \<Rightarrow> (string \<rightharpoonup> nat) \<Rightarrow> (nat \<Rightarrow> chan) \<Rightarrow> (nat \<Rightarrow> chan) outcome" where
  "close_all [] subs cs = Next cs"
| "close_all (proxyID # order) subs cs =
     (case subs proxyID of
        None \<Rightarrow> close_all order subs cs
      | Some ch \<Rightarrow> if ch_closed (cs ch) then Panic
                   else close_all order subs (cs(ch := (cs ch)\<lparr>ch_closed := True\<rparr>)))"

definition Shutdown :: "string list \<Rightarrow> Server \<Rightarrow> Server outcome" where
  "Shutdown order s =
     (case close_all order (case subscribers s of None \<Rightarrow> Map.empty | Some subs \<Rightarrow> subs) (chans s) of
        Next cs \<Rightarrow> Next (s\<lparr>chans := cs, subscribers := None\<rparr>)
      | Panic \<Rightarrow> Panic | Blocked \<Rightarrow> Blocked | Disabled \<Rightarrow> Disabled)"

section \<open>Running servers\<close>

text \<open>Every interleaving of sessions and updates, up to the shutdown.\<close>

inductive server_reach :: "Server \<Rightarrow> bool" where
  srv_new: "server_reach (NewServer config now)"
| srv_register: "server_reach s \<Longrightarrow> sub_register sid pid s = Next t \<Longrightarrow> server_reach t"
| srv_step: "server_reach s \<Longrightarrow> sub_step sid ev s = Next t \<Longrightarrow> server_reach t"
| srv_update: "server_reach s \<Longrightarrow> subscribers s = Some subs \<Longrightarrow> range_order subs order \<Longrightarrow>
    UpdateConfig order cfg now s = Next t \<Longrightarrow> server_reach t"

text \<open>
  The invariant. The channels of live sessions are distinct, allocated and open; a registered
  channel is that of a live session of the proxy; buffers hold at most ten configurations; and
  the stream of a registered session, sent, pending and buffered, ends with the current
  configuration.
\<close>

definition stream_of :: "Server \<Rightarrow> session_st \<Rightarrow> pb_Config list" where
  "stream_of s se = se_sent se @ (case se_pending se of None \<Rightarrow> [] | Some c \<Rightarrow> [c]) @ ch_buf (chans s (se_chan se))"

definition server_inv :: "Server \<Rightarrow> bool" where
  "server_inv s \<longleftrightarrow>
     (\<exists>subs. subscribers s = Some subs \<and>
        (\<forall>p ch. subs p = Some ch \<longrightarrow> (\<exists>sid se. sessions s sid = Some se \<and> se_proxy se = p \<and> se_chan se = ch)) \<and>
        (\<forall>sid se. sessions s sid = Some se \<longrightarrow> subs (se_proxy se) = Some (se_chan se) \<longrightarrow>
           stream_of s se \<noteq> [] \<and> last (stream_of s se) = currentConfig s)) \<and>
     (\<forall>sid se. sessions s sid = Some se \<longrightarrow>
        se_chan se < next_chan s \<and> \<not> ch_closed (chans s (se_chan se)) \<and> length (ch_buf (chans s (se_chan se))) \<le> 10) \<and>
     (\<forall>sid sid' se se'. sessions s sid = Some se \<longrightarrow> sessions s sid' = Some se' \<longrightarrow> se_chan se = se_chan se' \<longrightarrow> sid = sid')"

section \<open>Pushing\<close>

definition good_chan :: "chan \<Rightarrow> bool" where
  "good_chan c \<longleftrightarrow> \<not> ch_closed c \<and> length (ch_buf c) \<le> 10"

lemma push_good:
  assumes "good_chan c"
  shows "\<exists>c'. push cfg c = Next c' \<and> good_chan c' \<and> ch_buf c' \<noteq> [] \<and> last (ch_buf c') = cfg"
proof (cases "ch_buf c")
  case Nil
  then show ?thesis using assms by (simp add: push_def good_chan_def)
next
  case (Cons x xs)
  then show ?thesis using assms by (simp add: push_def good_chan_def)
qed

lemma push_all_good:
  assumes "distinct order" "\<forall>p ch. subs p = Some ch \<longrightarrow> good_chan (cs ch)"
    "\<forall>p p' ch. subs p = Some ch \<longrightarrow> subs p' = Some ch \<longrightarrow> p = p'"
  shows "\<exists>cs'. push_all cfg order subs cs = Next cs' \<and>
    (\<forall>p ch. subs p = Some ch \<longrightarrow> good_chan (cs' ch) \<and>
       (p \<in> set order \<longrightarrow> ch_buf (cs' ch) \<noteq> [] \<and> last (ch_buf (cs' ch)) = cfg)) \<and>
    (\<forall>ch. (\<forall>p\<in>set order. subs p \<noteq> Some ch) \<longrightarrow> cs' ch = cs ch)"
  using assms(1,2)
proof (induction order arbitrary: cs)
  case (Cons x order)
  show ?case
  proof (cases "subs x")
    case None
    then show ?thesis using Cons.IH [of cs] Cons.prems by auto
  next
    case (Some ch)
    obtain c where c: "push cfg (cs ch) = Next c" "good_chan c" "ch_buf c \<noteq> []" "last (ch_buf c) = cfg"
      using push_good [of "cs ch" cfg] Cons.prems(2) Some by blast
    have "\<forall>p ch'. subs p = Some ch' \<longrightarrow> good_chan ((cs(ch := c)) ch')" using Cons.prems(2) c(2) by simp
    with Cons.prems(1) obtain cs' where cs': "push_all cfg order subs (cs(ch := c)) = Next cs'"
      "\<forall>p ch. subs p = Some ch \<longrightarrow> good_chan (cs' ch) \<and>
         (p \<in> set order \<longrightarrow> ch_buf (cs' ch) \<noteq> [] \<and> last (ch_buf (cs' ch)) = cfg)"
      "\<forall>ch'. (\<forall>p\<in>set order. subs p \<noteq> Some ch') \<longrightarrow> cs' ch' = (cs(ch := c)) ch'"
      using Cons.IH [of "cs(ch := c)"] unfolding distinct.simps by blast
    have "\<forall>p\<in>set order. subs p \<noteq> Some ch" using Some assms(3) Cons.prems(1) by (metis distinct.simps(2))
    then have "cs' ch = c" using cs'(3) by simp
    with cs' c Some assms(3) show ?thesis by (intro exI [of _ cs']) auto
  qed
qed simp

section \<open>The invariant\<close>

lemma server_invD:
  assumes "server_inv s" "sessions s sid = Some se"
  shows "se_chan se < next_chan s" "\<not> ch_closed (chans s (se_chan se))" "length (ch_buf (chans s (se_chan se))) \<le> 10"
    "\<And>sid' se'. sessions s sid' = Some se' \<Longrightarrow> se_chan se' = se_chan se \<Longrightarrow> sid' = sid"
  using assms unfolding server_inv_def by blast+

lemma server_inv_subs:
  assumes "server_inv s" "subscribers s = Some subs"
  shows "subs p = Some ch \<Longrightarrow> \<exists>sid se. sessions s sid = Some se \<and> se_proxy se = p \<and> se_chan se = ch"
    "sessions s sid = Some se \<Longrightarrow> subs (se_proxy se) = Some (se_chan se) \<Longrightarrow>
      stream_of s se \<noteq> [] \<and> last (stream_of s se) = currentConfig s"
    "subs p = Some ch \<Longrightarrow> subs p' = Some ch \<Longrightarrow> p = p'"
    "subs p = Some ch \<Longrightarrow> good_chan (chans s ch)"
proof -
  show 1: "\<exists>sid se. sessions s sid = Some se \<and> se_proxy se = p \<and> se_chan se = ch" if "subs p = Some ch" for p ch
    using assms that unfolding server_inv_def by auto
  show "stream_of s se \<noteq> [] \<and> last (stream_of s se) = currentConfig s"
    if "sessions s sid = Some se" "subs (se_proxy se) = Some (se_chan se)"
    using assms that unfolding server_inv_def by auto
  show "p = p'" if "subs p = Some ch" "subs p' = Some ch"
    using 1 [OF that(1)] 1 [OF that(2)] server_invD(4) [OF assms(1)] by (metis option.inject)
  show "good_chan (chans s ch)" if "subs p = Some ch"
    using 1 [OF that] server_invD(2,3) [OF assms(1)] by (auto simp: good_chan_def)
qed

lemma server_invI:
  assumes "subscribers s = Some subs"
    "\<And>p ch. subs p = Some ch \<Longrightarrow> \<exists>sid se. sessions s sid = Some se \<and> se_proxy se = p \<and> se_chan se = ch"
    "\<And>sid se. sessions s sid = Some se \<Longrightarrow> subs (se_proxy se) = Some (se_chan se) \<Longrightarrow>
       stream_of s se \<noteq> [] \<and> last (stream_of s se) = currentConfig s"
    "\<And>sid se. sessions s sid = Some se \<Longrightarrow>
       se_chan se < next_chan s \<and> \<not> ch_closed (chans s (se_chan se)) \<and> length (ch_buf (chans s (se_chan se))) \<le> 10"
    "\<And>sid sid' se se'. sessions s sid = Some se \<Longrightarrow> sessions s sid' = Some se' \<Longrightarrow> se_chan se = se_chan se' \<Longrightarrow> sid = sid'"
  shows "server_inv s"
  using assms unfolding server_inv_def by blast

lemma server_inv_new: "server_inv (NewServer config now)"
  by (simp add: server_inv_def NewServer_def Let_def)

lemma server_inv_register:
  assumes "server_inv s" "sub_register sid pid s = Next t"
  shows "server_inv t"
proof -
  obtain subs where subs: "subscribers s = Some subs" using assms(1) by (auto simp: server_inv_def)
  let ?ch = "next_chan s"
  let ?se = "\<lparr>se_proxy = pid, se_chan = ?ch, se_pending = Some (currentConfig s), se_sent = []\<rparr>"
  have new: "sessions s sid = None"
    and t: "t = s\<lparr>subscribers := Some (subs(pid \<mapsto> ?ch)), next_chan := ?ch + 1,
      chans := (chans s)(?ch := \<lparr>ch_buf = [], ch_closed = False\<rparr>), sessions := (sessions s)(sid \<mapsto> ?se)\<rparr>"
    using assms(2) subs by (auto simp: sub_register_def Let_def split: if_splits)
  have old: "se_chan se < ?ch" if "sessions s sid' = Some se" for sid' se
    using server_invD(1) [OF assms(1) that] .
  have stream: "stream_of t se = stream_of s se" if "sessions s sid' = Some se" for sid' se
    using old [OF that] by (simp add: stream_of_def t)
  show ?thesis
  proof (rule server_invI)
  show "subscribers t = Some (subs(pid \<mapsto> ?ch))" by (simp add: t)
  show "\<exists>sid' se. sessions t sid' = Some se \<and> se_proxy se = p \<and> se_chan se = ch"
    if p: "(subs(pid \<mapsto> ?ch)) p = Some ch" for p ch
  proof (cases "p = pid")
    case True
    then show ?thesis using p by (intro exI [of _ sid]) (simp add: t)
  next
    case False
    then have "subs p = Some ch" using p by simp
    then obtain sid' se where "sessions s sid' = Some se" "se_proxy se = p" "se_chan se = ch"
      using server_inv_subs(1) [OF assms(1) subs] by blast
    moreover from this new have "sid' \<noteq> sid" by auto
    ultimately show ?thesis by (intro exI [of _ sid'] exI [of _ se]) (simp add: t)
  qed
  show "stream_of t se \<noteq> [] \<and> last (stream_of t se) = currentConfig t"
    if "sessions t sid' = Some se" "(subs(pid \<mapsto> ?ch)) (se_proxy se) = Some (se_chan se)" for sid' se
  proof (cases "sid' = sid")
    case True
    then have "se = ?se" using that(1) by (simp add: t)
    then show ?thesis by (simp add: stream_of_def t)
  next
    case False
    then have se: "sessions s sid' = Some se" using that(1) by (simp add: t)
    have "subs (se_proxy se) = Some (se_chan se)" using that(2) old [OF se] by (auto split: if_splits)
    then show ?thesis using server_inv_subs(2) [OF assms(1) subs se] stream [OF se] by (simp add: t)
  qed
  show "se_chan se < next_chan t \<and> \<not> ch_closed (chans t (se_chan se)) \<and> length (ch_buf (chans t (se_chan se))) \<le> 10"
    if "sessions t sid' = Some se" for sid' se
  proof (cases "sid' = sid")
    case False
    then have "sessions s sid' = Some se" using that by (simp add: t)
    then show ?thesis using server_invD(1-3) [OF assms(1)] old by (simp add: t less_SucI)
  qed (use that in \<open>auto simp: t\<close>)
  show "sid1 = sid2" if "sessions t sid1 = Some se1" "sessions t sid2 = Some se2" "se_chan se1 = se_chan se2"
    for sid1 sid2 se1 se2
  proof (cases "sid1 = sid \<or> sid2 = sid")
    case True
    then show ?thesis using that old [of sid1 se1] old [of sid2 se2] by (auto simp: t split: if_splits)
  next
    case False
    then show ?thesis using that server_invD(4) [OF assms(1), of sid2 se2 sid1 se1] by (simp add: t)
  qed
  qed
qed

lemma server_inv_cleanup:
  assumes "server_inv s" "sub_cleanup sid s = Next t"
  shows "server_inv t"
proof -
  obtain subs where subs: "subscribers s = Some subs" using assms(1) by (auto simp: server_inv_def)
  obtain se where se: "sessions s sid = Some se"
    and t: "t = s\<lparr>subscribers := Some (subs(se_proxy se := None)),
      chans := (chans s)(se_chan se := (chans s (se_chan se))\<lparr>ch_closed := True\<rparr>), sessions := (sessions s)(sid := None)\<rparr>"
    using assms(2) subs by (auto simp: sub_cleanup_def Let_def split: option.splits if_splits)
  have other: "sessions s sid' = Some se' \<and> chans t (se_chan se') = chans s (se_chan se')"
    if "sessions t sid' = Some se'" for sid' se'
    using that server_invD(4) [OF assms(1) se, of sid' se'] by (auto simp: t split: if_splits)
  show ?thesis
  proof (rule server_invI)
    show "subscribers t = Some (subs(se_proxy se := None))" by (simp add: t)
    show "\<exists>sid' se'. sessions t sid' = Some se' \<and> se_proxy se' = p \<and> se_chan se' = ch"
      if p: "(subs(se_proxy se := None)) p = Some ch" for p ch
    proof -
      have "subs p = Some ch" "p \<noteq> se_proxy se" using p by (auto split: if_splits)
      then obtain sid' se' where se': "sessions s sid' = Some se'" "se_proxy se' = p" "se_chan se' = ch"
        using server_inv_subs(1) [OF assms(1) subs] by blast
      with \<open>p \<noteq> se_proxy se\<close> se have "sid' \<noteq> sid" by auto
      with se' show ?thesis by (intro exI [of _ sid'] exI [of _ se']) (simp add: t)
    qed
    show "stream_of t se' \<noteq> [] \<and> last (stream_of t se') = currentConfig t"
      if "sessions t sid' = Some se'" "(subs(se_proxy se := None)) (se_proxy se') = Some (se_chan se')" for sid' se'
    proof -
      have "stream_of t se' = stream_of s se'" using other [OF that(1)] by (simp add: stream_of_def)
      moreover have "subs (se_proxy se') = Some (se_chan se')" using that(2) by (simp split: if_splits)
      moreover have "sessions s sid' = Some se'" "currentConfig t = currentConfig s" using other [OF that(1)] by (simp_all add: t)
      ultimately show ?thesis using server_inv_subs(2) [OF assms(1) subs, of sid' se'] by simp
    qed
    show "se_chan se' < next_chan t \<and> \<not> ch_closed (chans t (se_chan se')) \<and> length (ch_buf (chans t (se_chan se'))) \<le> 10"
      if "sessions t sid' = Some se'" for sid' se'
    proof -
      have o: "sessions s sid' = Some se'" "chans t (se_chan se') = chans s (se_chan se')" using other [OF that] by blast+
      have "next_chan t = next_chan s" by (simp add: t)
      then show ?thesis unfolding o(2) using server_invD(1-3) [OF assms(1) o(1)] by simp
    qed
    show "sid1 = sid2" if "sessions t sid1 = Some se1" "sessions t sid2 = Some se2" "se_chan se1 = se_chan se2"
      for sid1 sid2 se1 se2
      using server_invD(4) [OF assms(1) conjunct1 [OF other [OF that(2)]] conjunct1 [OF other [OF that(1)]] that(3)] .
  qed
qed

text \<open>A session step that keeps its stream keeps the invariant.\<close>

lemma server_inv_same_stream:
  assumes "server_inv s" "sessions s sid = Some se" "se_proxy se' = se_proxy se" "se_chan se' = se_chan se"
    and t: "t = s\<lparr>chans := (chans s)(se_chan se := (chans s (se_chan se))\<lparr>ch_buf := buf\<rparr>), sessions := (sessions s)(sid \<mapsto> se')\<rparr>"
    and "length buf \<le> 10" "stream_of t se' = stream_of s se"
  shows "server_inv t"
proof -
  obtain subs where subs: "subscribers s = Some subs" using assms(1) by (auto simp: server_inv_def)
  have other: "sid' \<noteq> sid \<Longrightarrow> sessions s sid' = Some se1 \<Longrightarrow> se_chan se1 \<noteq> se_chan se" for sid' se1
    using server_invD(4) [OF assms(1,2)] by blast
  show ?thesis
  proof (rule server_invI)
    show "subscribers t = Some subs" by (simp add: t subs)
    show "\<exists>sid' se1. sessions t sid' = Some se1 \<and> se_proxy se1 = p \<and> se_chan se1 = ch" if p: "subs p = Some ch" for p ch
    proof -
      obtain sid' se1 where se1: "sessions s sid' = Some se1" "se_proxy se1 = p" "se_chan se1 = ch"
        using server_inv_subs(1) [OF assms(1) subs p] by blast
      then show ?thesis using assms(2-4)
        by (cases "sid' = sid") (auto simp: t intro: exI [of _ sid] exI [of _ sid'])
    qed
    show "stream_of t se1 \<noteq> [] \<and> last (stream_of t se1) = currentConfig t"
      if "sessions t sid' = Some se1" "subs (se_proxy se1) = Some (se_chan se1)" for sid' se1
    proof (cases "sid' = sid")
      case True
      then have "se1 = se'" using that(1) by (simp add: t)
      then show ?thesis using server_inv_subs(2) [OF assms(1) subs assms(2)] that(2) assms(3,4,7) by (simp add: t)
    next
      case False
      then have se1: "sessions s sid' = Some se1" using that(1) by (simp add: t)
      then have "stream_of t se1 = stream_of s se1" using other [OF False] by (simp add: stream_of_def t)
      then show ?thesis using server_inv_subs(2) [OF assms(1) subs se1 that(2)] by (simp add: t)
    qed
    show "se_chan se1 < next_chan t \<and> \<not> ch_closed (chans t (se_chan se1)) \<and> length (ch_buf (chans t (se_chan se1))) \<le> 10"
      if "sessions t sid' = Some se1" for sid' se1
    proof (cases "sid' = sid")
      case True
      then have "se1 = se'" using that by (simp add: t)
      then show ?thesis using server_invD(1,2) [OF assms(1,2)] assms(4,6) by (simp add: t)
    next
      case False
      then have se1: "sessions s sid' = Some se1" using that by (simp add: t)
      then show ?thesis using server_invD(1-3) [OF assms(1) se1] other [OF False se1] by (simp add: t)
    qed
    show "sid1 = sid2" if "sessions t sid1 = Some se1" "sessions t sid2 = Some se2" "se_chan se1 = se_chan se2"
      for sid1 sid2 se1 se2
      using that other [of sid1 se1] other [of sid2 se2] server_invD(4) [OF assms(1), of sid2 se2 sid1 se1] assms(4)
      by (auto simp: t split: if_splits)
  qed
qed

lemma server_inv_step:
  assumes "server_inv s" "sub_step sid ev s = Next t"
  shows "server_inv t"
proof -
  obtain se where se: "sessions s sid = Some se" using assms(2) by (auto simp: sub_step_def split: option.splits)
  note len = server_invD(3) [OF assms(1) se]
  show ?thesis
  proof (cases "sub_cleanup sid s = Next t")
    case True
    then show ?thesis using server_inv_cleanup [OF assms(1)] by blast
  next
    case nc: False
    show ?thesis
    proof (cases "se_pending se")
      case (Some cfg)
      then have t: "t = s\<lparr>sessions := (sessions s)(sid \<mapsto> se\<lparr>se_pending := None, se_sent := se_sent se @ [cfg]\<rparr>)\<rparr>"
        using assms(2) nc se by (auto simp: sub_step_def split: sub_event.splits if_splits)
      show ?thesis
        by (rule server_inv_same_stream [OF assms(1) se, of "se\<lparr>se_pending := None, se_sent := se_sent se @ [cfg]\<rparr>" t
              "ch_buf (chans s (se_chan se))"])
           (use len Some in \<open>auto simp: t stream_of_def\<close>)
    next
      case None
      obtain ok where ev: "ev = Receive ok" using None assms(2) nc se by (auto simp: sub_step_def split: sub_event.splits)
      obtain cfg rest where buf: "ch_buf (chans s (se_chan se)) = cfg # rest"
        using assms(2) nc se None ev by (auto simp: sub_step_def Let_def split: list.splits if_splits)
      let ?s1 = "s\<lparr>chans := (chans s)(se_chan se := (chans s (se_chan se))\<lparr>ch_buf := rest\<rparr>)\<rparr>"
      have r: "server_inv (?s1\<lparr>sessions := (sessions s)(sid \<mapsto> se\<lparr>se_sent := se_sent se @ [cfg]\<rparr>)\<rparr>)"
        by (rule server_inv_same_stream [OF assms(1) se, of "se\<lparr>se_sent := se_sent se @ [cfg]\<rparr>" _ rest])
           (use len None buf in \<open>auto simp: stream_of_def\<close>)
      let ?r = "?s1\<lparr>sessions := (sessions s)(sid \<mapsto> se\<lparr>se_sent := se_sent se @ [cfg]\<rparr>)\<rparr>"
      have "sub_cleanup sid ?r = sub_cleanup sid ?s1"
        using se by (simp add: sub_cleanup_def Let_def)
      moreover have "t = ?r \<or> sub_cleanup sid ?s1 = Next t"
        using assms(2) se None ev buf by (auto simp: sub_step_def Let_def split: if_splits)
      ultimately show ?thesis using r server_inv_cleanup [OF r] by auto
    qed
  qed
qed

lemma UpdateConfig_ok:
  assumes "server_inv s" "subscribers s = Some subs" "range_order subs order"
    and cfg_def: "cfg = cfg0\<lparr>cfg_Version := ''v'' @ itoa (uint (version s + 1)), cfg_LastUpdated := now\<rparr>"
  obtains cs where "UpdateConfig order cfg0 now s = Next (s\<lparr>version := version s + 1, currentConfig := cfg, chans := cs\<rparr>)"
    "\<forall>p ch. subs p = Some ch \<longrightarrow> good_chan (cs ch) \<and> ch_buf (cs ch) \<noteq> [] \<and> last (ch_buf (cs ch)) = cfg"
    "\<forall>ch. (\<forall>p. subs p \<noteq> Some ch) \<longrightarrow> cs ch = chans s ch"
proof -
  have ord: "distinct order" "set order = dom subs" using assms(3) by (auto simp: range_order_def)
  obtain cs where cs: "push_all cfg order subs (chans s) = Next cs"
    "\<forall>p ch. subs p = Some ch \<longrightarrow> good_chan (cs ch) \<and>
       (p \<in> set order \<longrightarrow> ch_buf (cs ch) \<noteq> [] \<and> last (ch_buf (cs ch)) = cfg)"
    "\<forall>ch. (\<forall>p\<in>set order. subs p \<noteq> Some ch) \<longrightarrow> cs ch = chans s ch"
    using push_all_good [OF ord(1), of subs "chans s" cfg] server_inv_subs(3,4) [OF assms(1,2)] by blast
  show ?thesis
  proof (rule that)
    show "UpdateConfig order cfg0 now s = Next (s\<lparr>version := version s + 1, currentConfig := cfg, chans := cs\<rparr>)"
      using cs(1) assms(2) by (simp add: UpdateConfig_def Let_def cfg_def)
  qed (use cs(2,3) ord(2) in auto)
qed

lemma server_inv_update:
  assumes "server_inv s" "subscribers s = Some subs" "range_order subs order" "UpdateConfig order cfg0 now s = Next t"
  shows "server_inv t"
proof -
  let ?cfg = "cfg0\<lparr>cfg_Version := ''v'' @ itoa (uint (version s + 1)), cfg_LastUpdated := now\<rparr>"
  obtain cs where u: "UpdateConfig order cfg0 now s = Next (s\<lparr>version := version s + 1, currentConfig := ?cfg, chans := cs\<rparr>)"
    and reg: "\<forall>p ch. subs p = Some ch \<longrightarrow> good_chan (cs ch) \<and> ch_buf (cs ch) \<noteq> [] \<and> last (ch_buf (cs ch)) = ?cfg"
    and unreg: "\<forall>ch. (\<forall>p. subs p \<noteq> Some ch) \<longrightarrow> cs ch = chans s ch"
    by (rule UpdateConfig_ok [OF assms(1-3) refl, of cfg0 now])
  have t: "t = s\<lparr>version := version s + 1, currentConfig := ?cfg, chans := cs\<rparr>" using u assms(4) by simp
  show ?thesis
  proof (rule server_invI)
    show "subscribers t = Some subs" by (simp add: t assms(2))
    show "\<exists>sid se. sessions t sid = Some se \<and> se_proxy se = p \<and> se_chan se = ch" if "subs p = Some ch" for p ch
      using server_inv_subs(1) [OF assms(1,2) that] by (simp add: t)
    show "stream_of t se \<noteq> [] \<and> last (stream_of t se) = currentConfig t"
      if "sessions t sid = Some se" "subs (se_proxy se) = Some (se_chan se)" for sid se
      using reg that(2) by (simp add: stream_of_def t)
    show "se_chan se < next_chan t \<and> \<not> ch_closed (chans t (se_chan se)) \<and> length (ch_buf (chans t (se_chan se))) \<le> 10"
      if "sessions t sid = Some se" for sid se
      using that server_invD(1-3) [OF assms(1), of sid se] reg unreg
      by (cases "\<exists>p. subs p = Some (se_chan se)") (auto simp: t good_chan_def)
    show "sid1 = sid2" if "sessions t sid1 = Some se1" "sessions t sid2 = Some se2" "se_chan se1 = se_chan se2"
      for sid1 sid2 se1 se2
      using that server_invD(4) [OF assms(1), of sid2 se2 sid1 se1] by (simp add: t)
  qed
qed

lemma server_reach_inv: "server_reach s \<Longrightarrow> server_inv s"
  by (induction rule: server_reach.induct)
     (auto intro: server_inv_new server_inv_register server_inv_step server_inv_update)

section \<open>Properties\<close>

text \<open>A server with one subscriber, a gateway, whose snapshot is not sent yet.\<close>

definition one_subscriber :: Server where
  "one_subscriber = (case sub_register 0 ''gw'' (NewServer None 0) of Next t \<Rightarrow> t | _ \<Rightarrow> NewServer None 0)"

lemma one_subscriber_reach: "server_reach one_subscriber"
proof -
  have "sub_register 0 ''gw'' (NewServer None 0) = Next one_subscriber"
    by (simp add: one_subscriber_def sub_register_def NewServer_def Let_def)
  then show ?thesis by (rule srv_register [OF srv_new])
qed

lemma one_subscriber_state:
  "subscribers one_subscriber = Some [''gw'' \<mapsto> 0]"
  "sessions one_subscriber = [0 \<mapsto> \<lparr>se_proxy = ''gw'', se_chan = 0, se_pending = Some (currentConfig one_subscriber), se_sent = []\<rparr>]"
  "next_chan one_subscriber = 1" "ch_closed (chans one_subscriber n) = False" "ch_buf (chans one_subscriber n) = []"
  by (simp_all add: one_subscriber_def sub_register_def NewServer_def Let_def)



text \<open>
  A proxy that reconnects before the server noticed the end of its old stream loses its
  updates: both streams have the same proxy ID, the new session takes the entry of the map, and
  the clean-up of the old session deletes it. The new session lives on, unregistered, and no
  later update reaches its channel.
\<close>

theorem resubscription_forgotten:
  assumes "server_reach s" "sessions s sid1 = Some se1" "se_proxy se1 = pid"
    and "sub_register sid2 pid s = Next s1" "sub_cleanup sid1 s1 = Next s2"
  shows "\<exists>se2 subs. sessions s2 sid2 = Some se2 \<and> se_proxy se2 = pid \<and> subscribers s2 = Some subs \<and> subs pid = None \<and>
    (\<forall>order cfg now s3. range_order subs order \<and> UpdateConfig order cfg now s2 = Next s3 \<longrightarrow>
      sessions s3 sid2 = Some se2 \<and> chans s3 (se_chan se2) = chans s2 (se_chan se2))"
proof -
  have inv1: "server_inv s1" using server_inv_register [OF server_reach_inv [OF assms(1)] assms(4)] .
  note inv2 = server_inv_cleanup [OF inv1 assms(5)]
  obtain subs1 where subs1: "subscribers s1 = Some subs1" using inv1 by (auto simp: server_inv_def)
  have ne: "sid1 \<noteq> sid2" using assms(2,4) by (auto simp: sub_register_def split: if_splits)
  have se1: "sessions s1 sid1 = Some se1"
    using assms(2,4) ne by (auto simp: sub_register_def Let_def split: if_splits option.splits)
  obtain se2 where se2: "sessions s1 sid2 = Some se2" "se_proxy se2 = pid"
    using assms(4) by (auto simp: sub_register_def Let_def split: if_splits option.splits)
  have s2: "sessions s2 sid2 = Some se2" "subscribers s2 = Some (subs1(pid := None))"
    using assms(3,5) se1 se2 ne subs1 by (auto simp: sub_cleanup_def Let_def split: if_splits)
  have "sessions s3 sid2 = Some se2 \<and> chans s3 (se_chan se2) = chans s2 (se_chan se2)"
    if "range_order (subs1(pid := None)) order" "UpdateConfig order cfg now s2 = Next s3" for order cfg now s3
  proof -
    have "(subs1(pid := None)) p \<noteq> Some (se_chan se2)" for p
    proof
      assume p: "(subs1(pid := None)) p = Some (se_chan se2)"
      obtain sid se where "sessions s2 sid = Some se" "se_proxy se = p" "se_chan se = se_chan se2"
        using server_inv_subs(1) [OF inv2 s2(2) p] by blast
      then have "sid = sid2" using server_invD(4) [OF inv2 s2(1)] by blast
      then have "p = pid" using \<open>sessions s2 sid = Some se\<close> \<open>se_proxy se = p\<close> s2(1) se2(2) by simp
      then show False using p by simp
    qed
    then show ?thesis
      using that(2) s2(1) by (rule_tac UpdateConfig_ok [OF inv2 s2(2) that(1) refl, of cfg now]) auto
  qed
  then have "\<forall>order cfg now s3. range_order (subs1(pid := None)) order \<and> UpdateConfig order cfg now s2 = Next s3 \<longrightarrow>
      sessions s3 sid2 = Some se2 \<and> chans s3 (se_chan se2) = chans s2 (se_chan se2)" by blast
  moreover have "(subs1(pid := None)) pid = None" by simp
  ultimately show ?thesis using s2 se2(2) by blast
qed

theorem resubscription_forgotten_witness:
  "\<exists>s1 s2. sub_register 1 ''gw'' one_subscriber = Next s1 \<and> sub_cleanup 0 s1 = Next s2 \<and>
     (\<exists>se2 subs. sessions s2 1 = Some se2 \<and> subscribers s2 = Some subs \<and> subs ''gw'' = None)"
proof -
  have se: "sessions one_subscriber 0 = Some (the (sessions one_subscriber 0))" "se_proxy (the (sessions one_subscriber 0)) = ''gw''"
    by (simp_all add: one_subscriber_state)
  obtain s1 where s1: "sub_register 1 ''gw'' one_subscriber = Next s1"
    by (simp add: sub_register_def Let_def one_subscriber_state)
  obtain s2 where s2: "sub_cleanup 0 s1 = Next s2"
    using s1 by (auto simp: sub_register_def sub_cleanup_def Let_def one_subscriber_state)
  show ?thesis using resubscription_forgotten [OF one_subscriber_reach se s1 s2] s1 s2 by blast
qed

lemma close_all_good:
  assumes "distinct order" "\<forall>p\<in>set order. \<forall>ch. subs p = Some ch \<longrightarrow> \<not> ch_closed (cs ch)"
    "\<forall>p p' ch. subs p = Some ch \<longrightarrow> subs p' = Some ch \<longrightarrow> p = p'"
  shows "\<exists>cs'. close_all order subs cs = Next cs' \<and> (\<forall>ch. ch_closed (cs ch) \<longrightarrow> ch_closed (cs' ch)) \<and>
    (\<forall>p\<in>set order. \<forall>ch. subs p = Some ch \<longrightarrow> ch_closed (cs' ch))"
  using assms(1,2)
proof (induction order arbitrary: cs)
  case (Cons x order)
  show ?case
  proof (cases "subs x")
    case None
    then show ?thesis using Cons.IH [of cs] Cons.prems by auto
  next
    case (Some ch)
    let ?cs = "cs(ch := (cs ch)\<lparr>ch_closed := True\<rparr>)"
    have "\<forall>p\<in>set order. \<forall>ch'. subs p = Some ch' \<longrightarrow> \<not> ch_closed (?cs ch')"
      using Cons.prems Some assms(3) by (metis distinct.simps(2) fun_upd_other list.set_intros(2))
    then obtain cs' where cs': "close_all order subs ?cs = Next cs'" "\<forall>ch. ch_closed (?cs ch) \<longrightarrow> ch_closed (cs' ch)"
        "\<forall>p\<in>set order. \<forall>ch. subs p = Some ch \<longrightarrow> ch_closed (cs' ch)"
      using Cons.IH [of ?cs] Cons.prems(1) unfolding distinct.simps by blast
    moreover have "\<not> ch_closed (cs ch)" using Cons.prems(2) Some by simp
    moreover have "ch_closed (cs' ch)" using cs'(2) by simp
    moreover have "ch_closed (cs' ch')" if "ch_closed (cs ch')" for ch' using that cs'(2) by simp
    ultimately show ?thesis using Some by (intro exI [of _ cs']) auto
  qed
qed simp

text \<open>
  \<open>Shutdown\<close> itself succeeds, but it closes the channels that the deferred clean-up of the
  sessions closes again: the end of any session that was registered panics, and so does every
  new subscription, which writes to the nil map.
\<close>

theorem shutdown_makes_sessions_panic:
  assumes "server_reach s" "subscribers s = Some subs" "range_order subs order"
  shows "\<exists>t. Shutdown order s = Next t \<and>
    (\<forall>sid se. sessions s sid = Some se \<and> subs (se_proxy se) = Some (se_chan se) \<longrightarrow> sub_cleanup sid t = Panic) \<and>
    (\<forall>sid pid. sessions s sid = None \<longrightarrow> sub_register sid pid t = Panic)"
proof -
  note inv = server_reach_inv [OF assms(1)]
  have ord: "distinct order" "set order = dom subs" using assms(3) by (auto simp: range_order_def)
  obtain cs where cs: "close_all order subs (chans s) = Next cs" "\<forall>p\<in>set order. \<forall>ch. subs p = Some ch \<longrightarrow> ch_closed (cs ch)"
    using close_all_good [OF ord(1), of subs "chans s"] server_inv_subs(3,4) [OF inv assms(2)]
    by (auto simp: good_chan_def)
  have t: "Shutdown order s = Next (s\<lparr>chans := cs, subscribers := None\<rparr>)"
    using cs(1) assms(2) by (simp add: Shutdown_def)
  have "sub_cleanup sid (s\<lparr>chans := cs, subscribers := None\<rparr>) = Panic"
    if "sessions s sid = Some se" "subs (se_proxy se) = Some (se_chan se)" for sid se
    using cs(2) ord(2) that by (auto simp: sub_cleanup_def Let_def)
  then show ?thesis using t by (auto simp: sub_register_def)
qed

theorem shutdown_makes_sessions_panic_witness:
  "\<exists>t. Shutdown [''gw''] one_subscriber = Next t \<and> sub_cleanup 0 t = Panic \<and> sub_register 1 ''gw'' t = Panic"
proof -
  have ord: "range_order [''gw'' \<mapsto> (0::nat)] [''gw'']" by (simp add: range_order_def)
  have "\<exists>se. sessions one_subscriber 0 = Some se \<and> [''gw'' \<mapsto> 0] (se_proxy se) = Some (se_chan se)"
    "sessions one_subscriber 1 = None" by (simp_all add: one_subscriber_state)
  then show ?thesis
    using shutdown_makes_sessions_panic [OF one_subscriber_reach one_subscriber_state(1) ord] by blast
qed

end
