(* ===== verification/Config_Source.thy ===== *)
theory Config_Source
  imports Data_Plane
begin

text \<open>
  What the configuration sources of the control plane share. \<open>controlplane/watcher.go\<close> names the
  interface: a source watches something, validates the configurations it builds and emits the
  valid ones. Its contract towards the proxies is the locale \<open>config_source\<close>. The Kubernetes and
  the Consul source have the same debouncer (\<open>signalUpdate\<close>, \<open>runDebouncer\<close> and \<open>Watch\<close> of
  \<open>k8s-client.go\<close> and \<open>consul-client.go\<close> differ in their log messages only); it is modelled once,
  over what the source sees (\<open>world\<close>) and how it builds a configuration from it at a time.
\<close>

section \<open>The contract\<close>

lemma HandleConfig_no_panic:
  "cfg_ProxyConfig c \<noteq> None \<Longrightarrow> fst (HandleConfig parse o1 o2 o3 o4 (Some c) ps) \<noteq> Panicked"
  by (auto simp: HandleConfig_def Let_def split: sum.split prod.split)

locale config_source =
  fixes validate :: "pb_Config \<Rightarrow> 'e option"
  assumes has_proxy_config: "validate c = None \<Longrightarrow> cfg_ProxyConfig c \<noteq> None"
    and has_services: "validate c = None \<Longrightarrow> cfg_Services c \<noteq> []"
begin

text \<open>Version and timestamp are stamped by the server; a validated configuration is safe to apply.\<close>

lemma validated_never_panics:
  "validate c = None \<Longrightarrow>
   fst (HandleConfig parse o1 o2 o3 o4 (Some (c\<lparr>cfg_Version := v, cfg_LastUpdated := now\<rparr>)) ps) \<noteq> Panicked"
  using has_proxy_config by (intro HandleConfig_no_panic) simp

end

section \<open>The debouncer\<close>

datatype timer = TStopped | TRunning | TFired

text \<open>The result of the last build, kept to state what the debouncer achieves.\<close>

datatype emission = Emitted | Invalid | ChannelFull

record 'w discovery =
  world :: 'w
  notifications :: nat
  updateChan :: bool
  d_timer :: timer
  configChan :: "pb_Config list"
  d_closed :: bool
  consumed :: "pb_Config list"
  built :: 'w
  built_at :: int
  last_result :: emission

definition signalUpdate :: "'w discovery \<Rightarrow> 'w discovery" where
  "signalUpdate d = (if \<not> updateChan d then d\<lparr>updateChan := True\<rparr> else d)"

text \<open>A case of the \<open>select\<close> of \<open>runDebouncer\<close>, where it is ready.\<close>

datatype deb_case = GotUpdate | GotTimer int | GotDone

definition deb_emit ::
  "('w \<Rightarrow> int \<Rightarrow> pb_Config) \<Rightarrow> (pb_Config \<Rightarrow> 'e option) \<Rightarrow> int \<Rightarrow> 'w discovery \<Rightarrow> 'w discovery" where
  "deb_emit buildConfig validate now d =
     (let cfg = buildConfig (world d) now
      in if validate cfg \<noteq> None then d\<lparr>built := world d, built_at := now, last_result := Invalid\<rparr>
         else if length (configChan d) < 5
              then d\<lparr>configChan := configChan d @ [cfg], built := world d, built_at := now, last_result := Emitted\<rparr>
              else d\<lparr>built := world d, built_at := now, last_result := ChannelFull\<rparr>)"

definition runDebouncer ::
  "('w \<Rightarrow> int \<Rightarrow> pb_Config) \<Rightarrow> (pb_Config \<Rightarrow> 'e option) \<Rightarrow> deb_case \<Rightarrow> 'w discovery \<Rightarrow> 'w discovery option" where
  "runDebouncer buildConfig validate c d =
     (if d_closed d then None
      else case c of
             GotUpdate \<Rightarrow> if updateChan d then Some (d\<lparr>updateChan := False, d_timer := TRunning\<rparr>) else None
           | GotTimer now \<Rightarrow>
               if d_timer d = TFired then Some (deb_emit buildConfig validate now (d\<lparr>d_timer := TStopped\<rparr>)) else None
           | GotDone \<Rightarrow> Some (d\<lparr>d_closed := True\<rparr>))"

text \<open>
  The start: the caches are synchronised, and the first configuration is emitted if it is valid,
  which is taken to happen before the debouncer's timer runs out for the first time.
\<close>

definition deb_Watch ::
  "('w \<Rightarrow> int \<Rightarrow> pb_Config) \<Rightarrow> (pb_Config \<Rightarrow> 'e option) \<Rightarrow> 'w \<Rightarrow> bool \<Rightarrow> int \<Rightarrow> 'w discovery" where
  "deb_Watch buildConfig validate w signalled now =
     deb_emit buildConfig validate now
       \<lparr>world = w, notifications = 0, updateChan = signalled, d_timer = TStopped, configChan = [], d_closed = False,
        consumed = [], built = w, built_at = now, last_result = Invalid\<rparr>"

text \<open>
  The steps: the watched objects change, and a notification of it is on its way; it arrives; the
  timer runs out; the debouncer takes a case; the server takes a configuration.
\<close>

inductive deb_reach ::
  "('w \<Rightarrow> int \<Rightarrow> pb_Config) \<Rightarrow> (pb_Config \<Rightarrow> 'e option) \<Rightarrow> 'w discovery \<Rightarrow> bool"
  for buildConfig validate where
  deb_start: "deb_reach buildConfig validate (deb_Watch buildConfig validate w signalled now)"
| deb_change: "deb_reach buildConfig validate d \<Longrightarrow>
    deb_reach buildConfig validate (d\<lparr>world := w, notifications := notifications d + 1\<rparr>)"
| deb_notify: "deb_reach buildConfig validate d \<Longrightarrow> notifications d = Suc n \<Longrightarrow>
    deb_reach buildConfig validate (signalUpdate (d\<lparr>notifications := n\<rparr>))"
| deb_tick: "deb_reach buildConfig validate d \<Longrightarrow> d_timer d = TRunning \<Longrightarrow>
    deb_reach buildConfig validate (d\<lparr>d_timer := TFired\<rparr>)"
| deb_case: "deb_reach buildConfig validate d \<Longrightarrow> runDebouncer buildConfig validate c d = Some d' \<Longrightarrow>
    deb_reach buildConfig validate d'"
| deb_consume: "deb_reach buildConfig validate d \<Longrightarrow> configChan d = cfg # rest \<Longrightarrow>
    deb_reach buildConfig validate (d\<lparr>configChan := rest, consumed := consumed d @ [cfg]\<rparr>)"

definition quiescent :: "'w discovery \<Rightarrow> bool" where
  "quiescent d \<longleftrightarrow> \<not> d_closed d \<and> notifications d = 0 \<and> \<not> updateChan d \<and> d_timer d = TStopped"

text \<open>
  Every state: what was emitted is valid, the channel holds at most five configurations; when
  nothing is under way, the last build saw the current world, and if it was emitted, it is the
  last configuration that was or will be consumed.
\<close>

definition deb_inv :: "('w \<Rightarrow> int \<Rightarrow> pb_Config) \<Rightarrow> (pb_Config \<Rightarrow> 'e option) \<Rightarrow> 'w discovery \<Rightarrow> bool" where
  "deb_inv buildConfig validate d \<longleftrightarrow>
     (\<forall>c\<in>set (consumed d @ configChan d). validate c = None) \<and> length (configChan d) \<le> 5 \<and>
     (quiescent d \<longrightarrow> built d = world d) \<and>
     (last_result d = Emitted \<longrightarrow>
        consumed d @ configChan d \<noteq> [] \<and> last (consumed d @ configChan d) = buildConfig (built d) (built_at d)) \<and>
     (last_result d = Invalid \<longrightarrow> validate (buildConfig (built d) (built_at d)) \<noteq> None)"

lemma deb_inv_emit:
  assumes "\<forall>c\<in>set (consumed d @ configChan d). validate c = None" "length (configChan d) \<le> 5"
  shows "deb_inv buildConfig validate (deb_emit buildConfig validate now d)"
  using assms by (auto simp: deb_inv_def deb_emit_def Let_def)

lemma deb_inv_reach: "deb_reach buildConfig validate d \<Longrightarrow> deb_inv buildConfig validate d"
proof (induction rule: deb_reach.induct)
  case (deb_start w signalled now)
  show ?case unfolding deb_Watch_def by (rule deb_inv_emit) simp_all
next
  case (deb_case d c d')
  show ?case
  proof (cases c)
    case (GotTimer now)
    then have "d' = deb_emit buildConfig validate now (d\<lparr>d_timer := TStopped\<rparr>)"
      using deb_case.hyps(2) by (auto simp: runDebouncer_def split: if_splits)
    moreover have "\<forall>c\<in>set (consumed d @ configChan d). validate c = None" "length (configChan d) \<le> 5"
      using deb_case.IH unfolding deb_inv_def by blast+
    ultimately show ?thesis using deb_inv_emit [of "d\<lparr>d_timer := TStopped\<rparr>"] by simp
  next
    case GotUpdate
    then have "d' = d\<lparr>updateChan := False, d_timer := TRunning\<rparr>"
      using deb_case.hyps(2) by (simp add: runDebouncer_def split: if_splits)
    then show ?thesis using deb_case.IH by (simp add: deb_inv_def quiescent_def)
  next
    case GotDone
    then have "d' = d\<lparr>d_closed := True\<rparr>"
      using deb_case.hyps(2) by (simp add: runDebouncer_def split: if_splits)
    then show ?thesis using deb_case.IH by (simp add: deb_inv_def quiescent_def)
  qed
next
  case (deb_change d w)
  then show ?case by (simp add: deb_inv_def quiescent_def)
next
  case (deb_notify d n)
  then show ?case by (simp add: deb_inv_def quiescent_def signalUpdate_def)
next
  case (deb_tick d)
  then show ?case by (simp add: deb_inv_def quiescent_def)
next
  case (deb_consume d cfg rest)
  then show ?case by (simp add: deb_inv_def quiescent_def)
qed

section \<open>Sources behind the debouncer\<close>

locale debounced_source = config_source validate for validate :: "pb_Config \<Rightarrow> 'e option" +
  fixes buildConfig :: "'w \<Rightarrow> int \<Rightarrow> pb_Config"
begin

lemma emitted_safe:
  "deb_reach buildConfig validate d \<Longrightarrow> c \<in> set (consumed d @ configChan d) \<Longrightarrow>
   fst (HandleConfig parse o1 o2 o3 o4 (Some (c\<lparr>cfg_Version := v, cfg_LastUpdated := now\<rparr>)) ps) \<noteq> Panicked"
  using deb_inv_reach [of buildConfig validate d] validated_never_panics unfolding deb_inv_def by blast

lemma converges:
  assumes "deb_reach buildConfig validate d" "quiescent d"
  shows "built d = world d \<and> length (configChan d) \<le> 5 \<and>
    (last_result d = Emitted \<longrightarrow> last (consumed d @ configChan d) = buildConfig (world d) (built_at d)) \<and>
    (last_result d = Invalid \<longrightarrow> validate (buildConfig (world d) (built_at d)) \<noteq> None)"
  using deb_inv_reach [OF assms(1)] assms(2) by (auto simp: deb_inv_def)

end

end
