(* ===== verification/K8s_Client.thy ===== *)
theory K8s_Client
  imports Config_Source
begin

text \<open>
  \<open>controlplane/k8s-client.go\<close>: services with the mesh label and their endpoint slices become a
  configuration. The informers' stores are lists of objects in the order \<open>List\<close> returns them,
  which is arbitrary; a label map read at an absent key gives the empty string.
\<close>

section \<open>Objects\<close>

record k8s_Service =
  ks_Namespace :: string
  ks_Name :: string
  ks_Labels :: "string \<rightharpoonup> string"
  ks_Selector :: "(string \<times> string) list"
  ks_ClusterIP :: string
  ks_Ports :: "int32 list"

record k8s_Endpoint =
  ke_Addresses :: "string list"
  ke_Ready :: "bool option"

record EndpointSlice =
  es_Namespace :: string
  es_Labels :: "string \<rightharpoonup> string"
  es_Ports :: "int32 option list"
  es_Endpoints :: "k8s_Endpoint list"

datatype 'a store_obj = Obj 'a | OtherObj

type_synonym k8s_world = "k8s_Service store_obj list \<times> EndpointSlice store_obj list"

definition label :: "(string \<rightharpoonup> string) \<Rightarrow> string \<Rightarrow> string" where
  "label m k = (case m k of None \<Rightarrow> '''' | Some v \<Rightarrow> v)"

section \<open>Connecting\<close>

text \<open>
  \<open>NewK8sClient\<close>: the in-cluster configuration, else the file \<open>~/.kube/config\<close>, then the client
  set. What the client library answers is given: the two configurations and whether a client
  set can be made. The client that is returned is represented by its namespace.
\<close>

datatype k8s_client_error = LoadKubeconfigError | CreateClientsetError

definition loadKubeConfig :: "'c option \<Rightarrow> 'c option \<Rightarrow> k8s_client_error + 'c" where
  "loadKubeConfig InClusterConfig kubeconfig =
     (case InClusterConfig of
        Some cfg \<Rightarrow> Inr cfg
      | None \<Rightarrow> (case kubeconfig of None \<Rightarrow> Inl LoadKubeconfigError | Some cfg \<Rightarrow> Inr cfg))"

definition NewK8sClient :: "'c option \<Rightarrow> 'c option \<Rightarrow> ('c \<Rightarrow> bool) \<Rightarrow> string \<Rightarrow> k8s_client_error + string" where
  "NewK8sClient InClusterConfig kubeconfig NewForConfig namespace =
     (case loadKubeConfig InClusterConfig kubeconfig of
        Inl e \<Rightarrow> Inl e
      | Inr cfg \<Rightarrow> if NewForConfig cfg then Inr namespace else Inl CreateClientsetError)"

section \<open>Operations\<close>

definition defaultPort :: int32 where
  "defaultPort = 8080"

definition slice_port :: "EndpointSlice \<Rightarrow> int32" where
  "slice_port sl = (case es_Ports sl of Some port # _ \<Rightarrow> port | _ \<Rightarrow> defaultPort)"

definition slice_endpoints :: "EndpointSlice \<Rightarrow> pb_Endpoint list" where
  "slice_endpoints sl =
     concat (map (\<lambda>ep. if ke_Ready ep = Some False then []
                       else map (\<lambda>addr. \<lparr>ep_Address = addr @ '':'' @ itoa (sint (slice_port sl))\<rparr>) (ke_Addresses ep))
               (es_Endpoints sl))"

fun buildEndpoints :: "EndpointSlice store_obj list \<Rightarrow> string \<Rightarrow> string \<Rightarrow> pb_Endpoint list \<Rightarrow> pb_Endpoint list" where
  "buildEndpoints [] ns svcName out = out"
| "buildEndpoints (OtherObj # objs) ns svcName out = buildEndpoints objs ns svcName out"
| "buildEndpoints (Obj sl # objs) ns svcName out =
     (if es_Namespace sl \<noteq> ns \<or> label (es_Labels sl) ''kubernetes.io/service-name'' \<noteq> svcName
      then buildEndpoints objs ns svcName out
      else buildEndpoints objs ns svcName (out @ slice_endpoints sl))"

definition mesh_methods :: "string list" where
  "mesh_methods = [''GET'', ''POST'', ''PUT'', ''DELETE'', ''PATCH'']"

fun add_services ::
  "k8s_Service store_obj list \<Rightarrow> EndpointSlice store_obj list \<Rightarrow> pb_Service list \<Rightarrow> pb_Service list" where
  "add_services [] slices services = services"
| "add_services (OtherObj # objs) slices services = add_services objs slices services"
| "add_services (Obj svc # objs) slices services =
     (if length (ks_Selector svc) = 0 then add_services objs slices services
      else if label (ks_Labels svc) ''ananse.io/mesh'' \<noteq> ''enabled'' then add_services objs slices services
      else let endpoints = buildEndpoints slices (ks_Namespace svc) (ks_Name svc) []
           in if length endpoints = 0 then add_services objs slices services
              else let servicePort = (case ks_Ports svc of port # _ \<Rightarrow> port | [] \<Rightarrow> 0)
                   in add_services objs slices
                        (services @ [\<lparr>svc_Name = ks_Name svc,
                                      svc_Routes = [\<lparr>rt_Path = ''/'' @ ks_Name svc, rt_Methods = mesh_methods\<rparr>],
                                      svc_Endpoints = endpoints, svc_ClusterIp = ks_ClusterIP svc,
                                      svc_Port = servicePort\<rparr>]))"

definition k8s_buildConfig :: "k8s_world \<Rightarrow> int \<Rightarrow> pb_Config" where
  "k8s_buildConfig w now =
     \<lparr>cfg_Services = add_services (fst w) (snd w) [],
      cfg_ProxyConfig = Some \<lparr>pc_Port = 8089, pc_MetricsPort = 9090, pc_HealthCheckIntervalSeconds = 10\<rparr>,
      cfg_LastUpdated = 0, cfg_Version = ''k8s-'' @ itoa now\<rparr>"

datatype k8s_error = ProxyConfigRequired | ServiceRequired

definition k8s_validate :: "pb_Config \<Rightarrow> k8s_error option" where
  "k8s_validate cfg =
     (if cfg_ProxyConfig cfg = None then Some ProxyConfigRequired
      else if length (cfg_Services cfg) = 0 then Some ServiceRequired
      else None)"

text \<open>The debouncer and the start of the watch, for this source.\<close>

definition k8s_runDebouncer :: "deb_case \<Rightarrow> k8s_world discovery \<Rightarrow> k8s_world discovery option" where
  "k8s_runDebouncer = runDebouncer k8s_buildConfig k8s_validate"

definition k8s_Watch :: "k8s_world \<Rightarrow> bool \<Rightarrow> int \<Rightarrow> k8s_world discovery" where
  "k8s_Watch = deb_Watch k8s_buildConfig k8s_validate"

interpretation k8s: debounced_source k8s_validate k8s_buildConfig
  by unfold_locales (auto simp: k8s_validate_def split: if_splits)

section \<open>What the configuration holds\<close>

lemma buildEndpoints_out: "buildEndpoints objs ns n (out @ out') = out @ buildEndpoints objs ns n out'"
proof (induction objs arbitrary: out')
  case (Cons x objs)
  then show ?case by (cases x) simp_all
qed simp

lemma buildEndpoints_Obj:
  "buildEndpoints (Obj sl # objs) ns n [] =
     (if es_Namespace sl = ns \<and> label (es_Labels sl) ''kubernetes.io/service-name'' = n then slice_endpoints sl else []) @
     buildEndpoints objs ns n []"
  using buildEndpoints_out [of objs ns n "slice_endpoints sl" "[]"] by simp

lemma slice_endpoints_mem:
  "ep \<in> set (slice_endpoints sl) \<longleftrightarrow>
     (\<exists>e\<in>set (es_Endpoints sl). ke_Ready e \<noteq> Some False \<and>
        (\<exists>a\<in>set (ke_Addresses e). ep = \<lparr>ep_Address = a @ '':'' @ itoa (sint (slice_port sl))\<rparr>))"
  by (auto simp: slice_endpoints_def split: if_splits)

lemma buildEndpoints_mem:
  "ep \<in> set (buildEndpoints objs ns n []) \<longleftrightarrow>
     (\<exists>sl. Obj sl \<in> set objs \<and> es_Namespace sl = ns \<and>
        label (es_Labels sl) ''kubernetes.io/service-name'' = n \<and> ep \<in> set (slice_endpoints sl))"
proof (induction objs)
  case (Cons x objs)
  then show ?case
  proof (cases x)
    case (Obj sl)
    then show ?thesis unfolding Obj buildEndpoints_Obj using Cons.IH by auto
  qed auto
qed simp

text \<open>A service takes part if it has a selector, the label, and a ready endpoint.\<close>

definition in_mesh :: "EndpointSlice store_obj list \<Rightarrow> k8s_Service \<Rightarrow> bool" where
  "in_mesh slices svc \<longleftrightarrow>
     ks_Selector svc \<noteq> [] \<and> ks_Labels svc ''ananse.io/mesh'' = Some ''enabled'' \<and>
     buildEndpoints slices (ks_Namespace svc) (ks_Name svc) [] \<noteq> []"

definition to_pb :: "EndpointSlice store_obj list \<Rightarrow> k8s_Service \<Rightarrow> pb_Service" where
  "to_pb slices svc =
     \<lparr>svc_Name = ks_Name svc, svc_Routes = [\<lparr>rt_Path = ''/'' @ ks_Name svc, rt_Methods = mesh_methods\<rparr>],
      svc_Endpoints = buildEndpoints slices (ks_Namespace svc) (ks_Name svc) [],
      svc_ClusterIp = ks_ClusterIP svc, svc_Port = (case ks_Ports svc of port # _ \<Rightarrow> port | [] \<Rightarrow> 0)\<rparr>"

definition mesh_services :: "k8s_world \<Rightarrow> k8s_Service list" where
  "mesh_services w =
     filter (in_mesh (snd w)) (List.map_filter (\<lambda>x. case x of Obj svc \<Rightarrow> Some svc | OtherObj \<Rightarrow> None) (fst w))"

lemma add_services_eq:
  "add_services objs slices services = services @ map (to_pb slices) (mesh_services (objs, slices))"
proof (induction objs slices services rule: add_services.induct)
  case (3 svc objs slices services)
  have label: "label m k = ''enabled'' \<longleftrightarrow> m k = Some ''enabled''" for m k
    by (auto simp: label_def split: option.split)
  show ?case
  proof (cases "in_mesh slices svc")
    case True
    then have "add_services (Obj svc # objs) slices services = add_services objs slices (services @ [to_pb slices svc])"
      by (simp add: in_mesh_def label to_pb_def Let_def)
    then show ?thesis using 3(4) True
      by (simp add: in_mesh_def label to_pb_def Let_def mesh_services_def List.map_filter_simps)
  next
    case False
    then have "add_services (Obj svc # objs) slices services = add_services objs slices services"
      by (auto simp: in_mesh_def label Let_def)
    then show ?thesis using 3(1-3) False
      by (auto simp: in_mesh_def label mesh_services_def List.map_filter_simps)
  qed
qed (simp_all add: mesh_services_def List.map_filter_simps)

lemma mesh_services_mem: "svc \<in> set (mesh_services w) \<longleftrightarrow> Obj svc \<in> set (fst w) \<and> in_mesh (snd w) svc"
  by (force simp: mesh_services_def List.map_filter_def split: store_obj.splits)

lemma mesh_methods_ok: "\<exists>m\<in>set mesh_methods. m \<noteq> ''''"
  by (simp add: mesh_methods_def)

lemma k8s_config_ok:
  "config_ok (k8s_buildConfig w now) \<longleftrightarrow>
     distinct (map ks_Name (mesh_services w)) \<and>
     (\<forall>svc\<in>set (mesh_services w). ks_Name svc \<noteq> '''' \<and>
        distinct (map ep_Address (buildEndpoints (snd w) (ks_Namespace svc) (ks_Name svc) [])))"
proof -
  have services: "cfg_Services (k8s_buildConfig w now) = map (to_pb (snd w)) (mesh_services w)"
    using add_services_eq [of "fst w" "snd w" "[]"] by (simp add: k8s_buildConfig_def)
  have nonempty: "'''' \<notin> ep_Address ` set (buildEndpoints objs ns n [])" for objs ns n
    by (auto simp: buildEndpoints_mem slice_endpoints_mem)
  have "service_ok (to_pb (snd w) svc) \<longleftrightarrow> ks_Name svc \<noteq> '''' \<and>
      distinct (map ep_Address (buildEndpoints (snd w) (ks_Namespace svc) (ks_Name svc) []))"
    if "svc \<in> set (mesh_services w)" for svc
    using that nonempty mesh_methods_ok
    by (auto simp: service_ok_def endpoints_ok_def routes_ok_def to_pb_def mesh_services_mem in_mesh_def)
  then show ?thesis by (auto simp: config_ok_def services comp_def to_pb_def)
qed


text \<open>
  The watch loses no change: whenever the source is at rest (no notification on its way, no
  pending signal, no timer), the last build saw the cluster as it is, and if that build was
  emitted, the last configuration the server got or will get is the configuration of the
  current cluster. The channel never holds more than five, and every configuration that was
  emitted can be applied by a proxy without a panic.
\<close>

theorem k8s_watch_converges:
  assumes "deb_reach k8s_buildConfig k8s_validate d"
  shows "(quiescent d \<longrightarrow> built d = world d \<and>
      (last_result d = Emitted \<longrightarrow> last (consumed d @ configChan d) = k8s_buildConfig (world d) (built_at d)) \<and>
      (last_result d = Invalid \<longrightarrow> k8s_validate (k8s_buildConfig (world d) (built_at d)) \<noteq> None)) \<and>
    length (configChan d) \<le> 5 \<and>
    (c \<in> set (consumed d @ configChan d) \<longrightarrow>
      fst (HandleConfig parse o1 o2 o3 o4 (Some (c\<lparr>cfg_Version := v, cfg_LastUpdated := now\<rparr>)) ps) \<noteq> Panicked)"
  using k8s.converges [OF assms] k8s.emitted_safe [OF assms] deb_inv_reach [OF assms] by (auto simp: deb_inv_def)

section \<open>Witnesses\<close>

definition example_cluster :: k8s_world where
  "example_cluster =
     ([OtherObj, Obj \<lparr>ks_Namespace = ''ananse'', ks_Name = ''users'', ks_Labels = [''ananse.io/mesh'' \<mapsto> ''enabled''],
        ks_Selector = [(''app'', ''users'')], ks_ClusterIP = ''10.0.0.9'', ks_Ports = [80]\<rparr>],
      [Obj \<lparr>es_Namespace = ''ananse'', es_Labels = [''kubernetes.io/service-name'' \<mapsto> ''users''], es_Ports = [Some 5001],
        es_Endpoints = [\<lparr>ke_Addresses = [''10.1.0.1''], ke_Ready = None\<rparr>, \<lparr>ke_Addresses = [''10.1.0.2''], ke_Ready = Some False\<rparr>]\<rparr>])"

lemma example_cluster_services:
  "map ks_Name (mesh_services example_cluster) = [''users'']"
  "svc \<in> set (mesh_services example_cluster) \<Longrightarrow>
     svc_Endpoints (to_pb (snd example_cluster) svc) = [\<lparr>ep_Address = ''10.1.0.1:'' @ itoa 5001\<rparr>]"
  by (auto simp: example_cluster_def mesh_services_def in_mesh_def to_pb_def label_def slice_endpoints_def slice_port_def
      List.map_filter_simps)

lemma example_cluster_valid: "k8s_validate (k8s_buildConfig example_cluster 0) = None"
proof -
  have "map svc_Name (cfg_Services (k8s_buildConfig example_cluster 0)) = [''users'']"
    using add_services_eq [of "fst example_cluster" "snd example_cluster" "[]"] example_cluster_services(1)
    by (simp add: k8s_buildConfig_def comp_def to_pb_def)
  then show ?thesis
    by (auto simp: k8s_validate_def k8s_buildConfig_def)
qed


theorem k8s_watch_converges_witness:
  "quiescent (k8s_Watch example_cluster False 0) \<and>
   last (consumed (k8s_Watch example_cluster False 0) @ configChan (k8s_Watch example_cluster False 0)) =
     k8s_buildConfig example_cluster 0"
proof -
  let ?d = "k8s_Watch example_cluster False 0"
  have q: "quiescent ?d" "last_result ?d = Emitted" "built_at ?d = 0" "world ?d = example_cluster"
    using example_cluster_valid by (simp_all add: k8s_Watch_def deb_Watch_def deb_emit_def quiescent_def Let_def)
  have "deb_reach k8s_buildConfig k8s_validate ?d" unfolding k8s_Watch_def by (rule deb_start)
  from k8s_watch_converges [OF this] q show ?thesis by simp
qed

end
