(* ===== verification/Consul_Client.thy ===== *)
theory Consul_Client
  imports K8s_Client
begin

text \<open>
  \<open>controlplane/consul-client.go\<close>: the services of a Consul catalog become a configuration. What
  Consul answers is the world of the debouncer: the catalog (or an error), in the iteration
  order of its map, and the passing entries of each service (or an error). \<open>watchCatalog\<close> is a
  fold over the answers of its blocking queries.
\<close>

section \<open>Answers of Consul\<close>

record ServiceEntry =
  se_Port :: int64
  se_Address :: string
  se_NodeAddress :: string

record consul_world =
  cw_Services :: "(string \<rightharpoonup> string list) option"
  cw_order :: "string list"
  cw_Health :: "string \<Rightarrow> ServiceEntry list option"

section \<open>Connecting\<close>

text \<open>
  \<open>NewConsulClient\<close>: the library's default configuration with the given address and, if set,
  datacenter and token; then the client, and a request to the agent to see that it is there.
\<close>

record ConsulConfig =
  cc_Address :: string
  Datacenter :: string
  Token :: string
  TagFilter :: string

record consul_api_config =
  ac_Address :: string
  ac_Datacenter :: string
  ac_Token :: string

datatype consul_client_error = CreateConsulClient | ConnectToConsul

definition NewConsulClient ::
  "consul_api_config \<Rightarrow> (consul_api_config \<Rightarrow> bool) \<Rightarrow> (consul_api_config \<Rightarrow> bool) \<Rightarrow> ConsulConfig \<Rightarrow>
   consul_client_error + consul_api_config" where
  "NewConsulClient DefaultConfig NewClient agent_Self cfg =
     (let c1 = DefaultConfig\<lparr>ac_Address := cc_Address cfg\<rparr>;
          c2 = (if Datacenter cfg \<noteq> '''' then c1\<lparr>ac_Datacenter := Datacenter cfg\<rparr> else c1);
          c3 = (if Token cfg \<noteq> '''' then c2\<lparr>ac_Token := Token cfg\<rparr> else c2)
      in if \<not> NewClient c3 then Inl CreateConsulClient
         else if \<not> agent_Self c3 then Inl ConnectToConsul
         else Inr c3)"

section \<open>Operations\<close>

fun containsTag :: "string list \<Rightarrow> string \<Rightarrow> bool" where
  "containsTag [] target = False"
| "containsTag (t # tags) target = (if t = target then True else containsTag tags target)"

fun entry_endpoints :: "ServiceEntry list \<Rightarrow> int32 \<Rightarrow> pb_Endpoint list \<Rightarrow> int32 \<times> pb_Endpoint list" where
  "entry_endpoints [] servicePort endpoints = (servicePort, endpoints)"
| "entry_endpoints (entry # entries) servicePort endpoints =
     (if se_Port entry = 0 then entry_endpoints entries servicePort endpoints
      else let addr = (if se_Address entry = '''' then se_NodeAddress entry else se_Address entry)
           in entry_endpoints entries (ucast (se_Port entry))
                (endpoints @ [\<lparr>ep_Address = addr @ '':'' @ itoa (sint (se_Port entry))\<rparr>]))"

definition add_service ::
  "string \<Rightarrow> (string \<Rightarrow> ServiceEntry list option) \<Rightarrow> string \<Rightarrow> string list \<Rightarrow> pb_Service list \<Rightarrow> pb_Service list" where
  "add_service tagFilter health serviceName tags services =
     (if serviceName = ''consul'' then services
      else if tagFilter \<noteq> '''' \<and> \<not> containsTag tags tagFilter then services
      else case health serviceName of
             None \<Rightarrow> services
           | Some entries \<Rightarrow>
               if length entries = 0 then services
               else case entry_endpoints entries 0 [] of
                      (servicePort, endpoints) \<Rightarrow>
                        if length endpoints = 0 then services
                        else services @ [\<lparr>svc_Name = serviceName,
                               svc_Routes = [\<lparr>rt_Path = ''/'' @ serviceName, rt_Methods = mesh_methods\<rparr>],
                               svc_Endpoints = endpoints, svc_ClusterIp = '''', svc_Port = servicePort\<rparr>])"

definition consul_buildConfig :: "string \<Rightarrow> consul_world \<Rightarrow> int \<Rightarrow> pb_Config" where
  "consul_buildConfig tagFilter w now =
     \<lparr>cfg_Services = (case cw_Services w of
                        None \<Rightarrow> []
                      | Some services \<Rightarrow> for_range (cw_order w) services (add_service tagFilter (cw_Health w)) []),
      cfg_ProxyConfig = Some \<lparr>pc_Port = 8089, pc_MetricsPort = 9090, pc_HealthCheckIntervalSeconds = 10\<rparr>,
      cfg_LastUpdated = 0, cfg_Version = ''consul-'' @ itoa now\<rparr>"

datatype consul_error = ConsulProxyConfigRequired | NoServicesDiscovered

definition consul_validate :: "pb_Config \<Rightarrow> consul_error option" where
  "consul_validate cfg =
     (if cfg_ProxyConfig cfg = None then Some ConsulProxyConfigRequired
      else if length (cfg_Services cfg) = 0 then Some NoServicesDiscovered
      else None)"

text \<open>
  One round of \<open>watchCatalog\<close> from the answer of the blocking query, \<open>None\<close> for an error: the
  next wait index, and whether an update is signalled.
\<close>

definition watchCatalog_round :: "uint64 option \<Rightarrow> uint64 \<Rightarrow> uint64 \<times> bool" where
  "watchCatalog_round answer waitIndex =
     (case answer of
        None \<Rightarrow> (waitIndex, False)
      | Some lastIndex \<Rightarrow> if waitIndex < lastIndex then (lastIndex, True) else (waitIndex, False))"

fun watchCatalog :: "uint64 option list \<Rightarrow> uint64 \<Rightarrow> bool list" where
  "watchCatalog [] waitIndex = []"
| "watchCatalog (answer # answers) waitIndex =
     (case watchCatalog_round answer waitIndex of (waitIndex', signal) \<Rightarrow> signal # watchCatalog answers waitIndex')"

definition consul_runDebouncer :: "string \<Rightarrow> deb_case \<Rightarrow> consul_world discovery \<Rightarrow> consul_world discovery option" where
  "consul_runDebouncer tagFilter = runDebouncer (consul_buildConfig tagFilter) consul_validate"

definition consul_Watch :: "string \<Rightarrow> consul_world \<Rightarrow> bool \<Rightarrow> int \<Rightarrow> consul_world discovery" where
  "consul_Watch tagFilter = deb_Watch (consul_buildConfig tagFilter) consul_validate"

interpretation consul: debounced_source consul_validate "consul_buildConfig tagFilter" for tagFilter
  by unfold_locales (auto simp: consul_validate_def split: if_splits)

section \<open>What the configuration holds\<close>

definition entry_address :: "ServiceEntry \<Rightarrow> string" where
  "entry_address e = (if se_Address e = '''' then se_NodeAddress e else se_Address e) @ '':'' @ itoa (sint (se_Port e))"

definition usable :: "ServiceEntry list \<Rightarrow> ServiceEntry list" where
  "usable es = filter (\<lambda>e. se_Port e \<noteq> 0) es"

lemma entry_endpoints_eq:
  "entry_endpoints es p acc =
     (if usable es = [] then p else ucast (se_Port (last (usable es))),
      acc @ map (\<lambda>e. \<lparr>ep_Address = entry_address e\<rparr>) (usable es))"
  by (induction es p acc rule: entry_endpoints.induct) (auto simp: usable_def entry_address_def Let_def)

lemma containsTag_mem: "containsTag tags t \<longleftrightarrow> t \<in> set tags"
  by (induction tags) auto

text \<open>The service that a name contributes, if any.\<close>

definition selected :: "string \<Rightarrow> consul_world \<Rightarrow> string \<Rightarrow> ServiceEntry list option" where
  "selected tagFilter w n =
     (case cw_Services w of
        None \<Rightarrow> None
      | Some services \<Rightarrow>
          (case (services n, cw_Health w n) of
             (Some tags, Some es) \<Rightarrow>
               if n \<noteq> ''consul'' \<and> (tagFilter = '''' \<or> tagFilter \<in> set tags) \<and> usable es \<noteq> [] then Some (usable es) else None
           | _ \<Rightarrow> None))"

definition consul_pb :: "string \<Rightarrow> ServiceEntry list \<Rightarrow> pb_Service" where
  "consul_pb n es =
     \<lparr>svc_Name = n, svc_Routes = [\<lparr>rt_Path = ''/'' @ n, rt_Methods = mesh_methods\<rparr>],
      svc_Endpoints = map (\<lambda>e. \<lparr>ep_Address = entry_address e\<rparr>) es, svc_ClusterIp = '''', svc_Port = ucast (se_Port (last es))\<rparr>"

lemma add_service_eq:
  assumes "cw_Services w = Some services" "services n = Some tags"
  shows "add_service tf (cw_Health w) n tags acc =
    acc @ (case selected tf w n of None \<Rightarrow> [] | Some es \<Rightarrow> [consul_pb n es])"
  using assms
  by (auto simp: add_service_def selected_def entry_endpoints_eq containsTag_mem consul_pb_def usable_def split: option.split)

lemma consul_services:
  "cfg_Services (consul_buildConfig tf w now) =
     concat (map (\<lambda>n. case selected tf w n of None \<Rightarrow> [] | Some es \<Rightarrow> [consul_pb n es]) (cw_order w))"
proof (cases "cw_Services w")
  case None
  then show ?thesis by (simp add: consul_buildConfig_def selected_def)
next
  case (Some services)
  have "for_range ks services (add_service tf (cw_Health w)) acc =
      acc @ concat (map (\<lambda>n. case selected tf w n of None \<Rightarrow> [] | Some es \<Rightarrow> [consul_pb n es]) ks)" for ks acc
  proof (induction ks arbitrary: acc)
    case (Cons n ks)
    then show ?case
      using add_service_eq [OF Some, of n _ tf acc] by (cases "services n") (auto simp: selected_def Some)
  qed simp
  then show ?thesis by (simp add: consul_buildConfig_def Some)
qed

lemma consul_names:
  "map svc_Name (cfg_Services (consul_buildConfig tf w now)) = filter (\<lambda>n. selected tf w n \<noteq> None) (cw_order w)"
proof -
  have "map svc_Name (concat (map (\<lambda>n. case selected tf w n of None \<Rightarrow> [] | Some es \<Rightarrow> [consul_pb n es]) ks)) =
      filter (\<lambda>n. selected tf w n \<noteq> None) ks" for ks
    by (induction ks) (auto simp: consul_pb_def split: option.split)
  then show ?thesis by (simp add: consul_services)
qed

lemma consul_service_mem:
  assumes "cw_Services w = Some services" "range_order services (cw_order w)"
  shows "s \<in> set (cfg_Services (consul_buildConfig tf w now)) \<longleftrightarrow> (\<exists>n es. selected tf w n = Some es \<and> s = consul_pb n es)"
proof -
  have "n \<in> set (cw_order w)" if "selected tf w n = Some es" for n es
    using that assms by (auto simp: selected_def range_order_def split: option.splits)
  moreover have "s \<in> set (cfg_Services (consul_buildConfig tf w now)) \<longleftrightarrow>
      (\<exists>n\<in>set (cw_order w). \<exists>es. selected tf w n = Some es \<and> s = consul_pb n es)"
    unfolding consul_services by (auto split: option.splits) (metis, metis)
  ultimately show ?thesis by blast
qed

lemma selected_usable: "selected tf w n = Some es \<Longrightarrow> es \<noteq> []"
  by (auto simp: selected_def split: option.splits if_splits)

lemma entry_address_nonempty: "[] \<noteq> entry_address e"
  by (simp add: entry_address_def)

lemma consul_service_ok:
  "selected tf w n = Some es \<Longrightarrow> service_ok (consul_pb n es) \<longleftrightarrow> n \<noteq> '''' \<and> distinct (map entry_address es)"
  using selected_usable [of tf w n es] mesh_methods_ok entry_address_nonempty
  by (auto simp: service_ok_def endpoints_ok_def routes_ok_def consul_pb_def comp_def)

text \<open>
  The configuration built from Consul has, in whatever order the catalog is enumerated, exactly one
  service per selected name (not \<open>consul\<close>, carrying the tag if one is required, with a passing
  instance that has a port), with the addresses of these instances; the proxies
  accept it exactly when no service has two instances with the same address.
\<close>

theorem consul_config_accepted:
  assumes "cw_Services w = Some services" "range_order services (cw_order w)" "'''' \<notin> dom services"
  shows "distinct (map svc_Name (cfg_Services (consul_buildConfig tagFilter w now))) \<and>
    (s \<in> set (cfg_Services (consul_buildConfig tagFilter w now)) \<longleftrightarrow>
      (\<exists>n es. selected tagFilter w n = Some es \<and> s = consul_pb n es)) \<and>
    ((\<exists>rt. buildRoutingTable order (Some (consul_buildConfig tagFilter w now)) = Inr rt) \<longleftrightarrow>
      (\<forall>n es. selected tagFilter w n = Some es \<longrightarrow> distinct (map entry_address es)))"
proof -
  have names: "distinct (map svc_Name (cfg_Services (consul_buildConfig tagFilter w now)))"
    unfolding consul_names using assms(2) by (auto simp: range_order_def)
  note mem = consul_service_mem [OF assms(1,2), of _ tagFilter now]
  have ne: "n \<noteq> ''''" if "selected tagFilter w n = Some es" for n es
    using that assms(1,3) by (auto simp: selected_def split: option.splits)
  have "(\<exists>rt. buildRoutingTable order (Some (consul_buildConfig tagFilter w now)) = Inr rt) \<longleftrightarrow>
      config_ok (consul_buildConfig tagFilter w now)"
    by (simp add: buildRoutingTable_Inr)
  also have "\<dots> \<longleftrightarrow> (\<forall>n es. selected tagFilter w n = Some es \<longrightarrow> service_ok (consul_pb n es))"
    using names mem by (auto simp: config_ok_def)
  also have "\<dots> \<longleftrightarrow> (\<forall>n es. selected tagFilter w n = Some es \<longrightarrow> distinct (map entry_address es))"
    using ne consul_service_ok by blast
  finally show ?thesis using names mem by blast
qed

section \<open>Watching the catalog\<close>

lemma watchCatalog_signals:
  "i < length answers \<Longrightarrow>
   watchCatalog answers w ! i \<longleftrightarrow>
     (\<exists>x. answers ! i = Some x \<and> w < x \<and> (\<forall>j<i. \<forall>y. answers ! j = Some y \<longrightarrow> y < x))"
proof (induction answers arbitrary: i w)
  case (Cons a answers)
  obtain w' sig where r: "watchCatalog_round a w = (w', sig)" by fastforce
  have w': "w' = (case a of None \<Rightarrow> w | Some x \<Rightarrow> max w x)" "sig \<longleftrightarrow> (\<exists>x. a = Some x \<and> w < x)"
    using r by (auto simp: watchCatalog_round_def max_def split: option.splits if_splits)
  show ?case
  proof (cases i)
    case 0
    then show ?thesis using r w' by simp
  next
    case (Suc k)
    then show ?thesis using Cons r w'(1) by (cases a) (auto simp: All_less_Suc2)
  qed
qed simp

text \<open>
  The catalog watcher signals an update exactly on the answers whose index is larger than all
  indexes before it, failed queries not counting. (An index that went backwards, which Consul
  documents as possible after a restart, is never taken over, so no update
  is signalled until the old value is exceeded.)
\<close>

theorem watchCatalog_signals_growth:
  assumes "i < length answers"
  shows "watchCatalog answers 0 ! i \<longleftrightarrow>
    (\<exists>x. answers ! i = Some x \<and> 0 < x \<and> (\<forall>j<i. \<forall>y. answers ! j = Some y \<longrightarrow> y < x))"
  using assms by (rule watchCatalog_signals)

section \<open>Witnesses\<close>

definition example_catalog :: consul_world where
  "example_catalog =
     \<lparr>cw_Services = Some [''consul'' \<mapsto> [], ''users'' \<mapsto> [''ananse'']], cw_order = [''users'', ''consul''],
      cw_Health = (\<lambda>_. Some [\<lparr>se_Port = 5001, se_Address = '''', se_NodeAddress = ''10.1.0.1''\<rparr>,
                              \<lparr>se_Port = 0, se_Address = ''x'', se_NodeAddress = ''y''\<rparr>])\<rparr>"

theorem consul_config_accepted_witness:
  "\<exists>rt. buildRoutingTable [''users''] (Some (consul_buildConfig ''ananse'' example_catalog 0)) = Inr rt"
proof -
  have 1: "cw_Services example_catalog = Some [''consul'' \<mapsto> [], ''users'' \<mapsto> [''ananse'']]"
    by (simp add: example_catalog_def)
  have 2: "range_order [''consul'' \<mapsto> [], ''users'' \<mapsto> [''ananse'']] (cw_order example_catalog)"
    by (auto simp: example_catalog_def range_order_def)
  have 3: "'''' \<notin> dom [''consul'' \<mapsto> [], ''users'' \<mapsto> [''ananse'']]" by simp
  have "distinct (map entry_address es)" if "selected ''ananse'' example_catalog n = Some es" for n es
    using that by (auto simp: selected_def example_catalog_def usable_def split: option.splits if_splits)
  with consul_config_accepted [OF 1 2 3, of "''ananse''" 0 _ "[''users'']"] show ?thesis by blast
qed

theorem watchCatalog_signals_growth_witness:
  "\<not> watchCatalog [Some 7, None, Some 3, Some 8] 0 ! 2"
proof
  let ?as = "[Some 7, None, Some 3, Some (8 :: uint64)]"
  assume a: "watchCatalog ?as 0 ! 2"
  have "2 < length ?as" by simp
  then obtain x where x: "?as ! 2 = Some x" "\<forall>j<2. \<forall>y. ?as ! j = Some y \<longrightarrow> y < x"
    using watchCatalog_signals_growth [of 2 ?as] a by blast
  have "(7 :: uint64) < x" using x(2) by (meson nth_Cons_0 zero_less_numeral)
  moreover have "x = 3" using x(1) by (simp add: numeral_2_eq_2)
  ultimately show False by simp
qed

end
