(* ===== verification/Control_Main.thy ===== *)
theory Control_Main
  imports Control_Server K8s_Client Consul_Client
begin

text \<open>
  \<open>controlplane/cmd/main.go\<close>: the control plane as a process. It chooses a configuration source,
  starts the server with an empty configuration and forwards what the source emits to
  \<open>UpdateConfig\<close>. The source is the debounced discovery of \<open>Config_Source\<close>, the server that of
  \<open>Control_Server\<close>; they share nothing but the channel of configurations, and the forwarding
  goroutine is the only one that reads it.
\<close>

section \<open>Choosing a source\<close>

record cp_flags =
  useK8s :: bool
  useConsul :: bool
  consulAddr :: string
  consulTag :: string
  configPath :: string
  configName :: string
  configType :: string
  ananseNamespace :: string

definition default_flags :: cp_flags where
  "default_flags =
     \<lparr>useK8s = False, useConsul = False, consulAddr = ''localhost:8500'', consulTag = '''',
      configPath = ''./config'', configName = ''config'', configType = ''yaml'', ananseNamespace = ''ananse''\<rparr>"

datatype watcher_choice =
    K8sWatcher string
  | ConsulWatcher consul_api_config string
  | FileWatcher string string string
  | K8sFatal k8s_client_error
  | ConsulFatal consul_client_error

text \<open>The two constructors, with what their libraries answer, are the first arguments.\<close>

definition choose_watcher ::
  "(string \<Rightarrow> k8s_client_error + string) \<Rightarrow> (ConsulConfig \<Rightarrow> consul_client_error + consul_api_config) \<Rightarrow>
   cp_flags \<Rightarrow> watcher_choice" where
  "choose_watcher newK8s newConsul f =
     (if useK8s f then (case newK8s (ananseNamespace f) of Inl e \<Rightarrow> K8sFatal e | Inr ns \<Rightarrow> K8sWatcher ns)
      else if useConsul f
      then (case newConsul \<lparr>cc_Address = consulAddr f, Datacenter = '''', Token = '''', TagFilter = consulTag f\<rparr> of
              Inl e \<Rightarrow> ConsulFatal e | Inr api \<Rightarrow> ConsulWatcher api (consulTag f))
      else FileWatcher (configPath f) (configName f) (configType f))"

text \<open>
  Which source runs: Kubernetes wins over Consul, and a file is the default. A control plane
  for Kubernetes starts inside a cluster or with a kubeconfig; one for Consul talks to the
  given address in the library's default datacenter.
\<close>

lemma chosen_source:
  assumes "choose_watcher (NewK8sClient inC kc newC) (NewConsulClient d newA self) f = w"
  shows "w = K8sWatcher ns \<longleftrightarrow> useK8s f \<and> ns = ananseNamespace f \<and>
      (\<exists>cfg. (inC = Some cfg \<or> inC = None \<and> kc = Some cfg) \<and> newC cfg)"
    and "w = ConsulWatcher api tag \<longleftrightarrow> \<not> useK8s f \<and> useConsul f \<and> tag = consulTag f \<and>
      api = d\<lparr>ac_Address := consulAddr f\<rparr> \<and> newA api \<and> self api"
    and "(\<exists>path name kind. w = FileWatcher path name kind) \<longleftrightarrow> \<not> useK8s f \<and> \<not> useConsul f"
  using assms by (auto simp: choose_watcher_def NewK8sClient_def loadKubeConfig_def NewConsulClient_def Let_def
      split: sum.splits option.splits if_splits)

section \<open>Forwarding\<close>

record 'w control =
  cm_source :: "'w discovery"
  cm_server :: Server
  cm_forwarding :: bool

text \<open>
  One round of the forwarding loop with the channel ready: a configuration goes to the server; a
  closed and drained channel ends the loop. \<open>None\<close> means that the round waits.
\<close>

definition forward :: "string list \<Rightarrow> int64 \<Rightarrow> 'w control \<Rightarrow> 'w control outcome option" where
  "forward order now cm =
     (if \<not> cm_forwarding cm then None
      else case configChan (cm_source cm) of
             [] \<Rightarrow> if d_closed (cm_source cm) then Some (Next (cm\<lparr>cm_forwarding := False\<rparr>)) else None
           | cfg # rest \<Rightarrow>
               let cm1 = cm\<lparr>cm_source := (cm_source cm)\<lparr>configChan := rest, consumed := consumed (cm_source cm) @ [cfg]\<rparr>\<rparr>
               in Some (case UpdateConfig order cfg now (cm_server cm) of
                          Next s \<Rightarrow> Next (cm1\<lparr>cm_server := s\<rparr>)
                        | Panic \<Rightarrow> Panic | Blocked \<Rightarrow> Blocked | Disabled \<Rightarrow> Disabled))"

definition control_init ::
  "('w \<Rightarrow> int \<Rightarrow> pb_Config) \<Rightarrow> (pb_Config \<Rightarrow> 'e option) \<Rightarrow> 'w \<Rightarrow> bool \<Rightarrow> int \<Rightarrow> int64 \<Rightarrow> 'w control" where
  "control_init buildConfig validate w signalled now start =
     \<lparr>cm_source = deb_Watch buildConfig validate w signalled now, cm_server = NewServer None start, cm_forwarding = True\<rparr>"

section \<open>Runs\<close>

text \<open>Every interleaving of the source, the forwarding loop and the sessions, up to the shutdown.\<close>

inductive control_reach ::
  "('w \<Rightarrow> int \<Rightarrow> pb_Config) \<Rightarrow> (pb_Config \<Rightarrow> 'e option) \<Rightarrow> 'w control \<Rightarrow> bool"
  for buildConfig validate where
  ctl_start: "control_reach buildConfig validate (control_init buildConfig validate w signalled now start)"
| ctl_change: "control_reach buildConfig validate cm \<Longrightarrow> d = cm_source cm \<Longrightarrow>
    control_reach buildConfig validate (cm\<lparr>cm_source := d\<lparr>world := w, notifications := notifications d + 1\<rparr>\<rparr>)"
| ctl_notify: "control_reach buildConfig validate cm \<Longrightarrow> d = cm_source cm \<Longrightarrow> notifications d = Suc n \<Longrightarrow>
    control_reach buildConfig validate (cm\<lparr>cm_source := signalUpdate (d\<lparr>notifications := n\<rparr>)\<rparr>)"
| ctl_tick: "control_reach buildConfig validate cm \<Longrightarrow> d = cm_source cm \<Longrightarrow> d_timer d = TRunning \<Longrightarrow>
    control_reach buildConfig validate (cm\<lparr>cm_source := d\<lparr>d_timer := TFired\<rparr>\<rparr>)"
| ctl_case: "control_reach buildConfig validate cm \<Longrightarrow> runDebouncer buildConfig validate c (cm_source cm) = Some d \<Longrightarrow>
    control_reach buildConfig validate (cm\<lparr>cm_source := d\<rparr>)"
| ctl_forward: "control_reach buildConfig validate cm \<Longrightarrow> subscribers (cm_server cm) = Some subs \<Longrightarrow>
    range_order subs order \<Longrightarrow> forward order now cm = Some (Next cm') \<Longrightarrow> control_reach buildConfig validate cm'"
| ctl_register: "control_reach buildConfig validate cm \<Longrightarrow> sub_register sid pid (cm_server cm) = Next s \<Longrightarrow>
    control_reach buildConfig validate (cm\<lparr>cm_server := s\<rparr>)"
| ctl_session: "control_reach buildConfig validate cm \<Longrightarrow> sub_step sid ev (cm_server cm) = Next s \<Longrightarrow>
    control_reach buildConfig validate (cm\<lparr>cm_server := s\<rparr>)"

text \<open>The configuration that the server holds, up to the version and the time that it stamps.\<close>

definition same_content :: "pb_Config \<Rightarrow> pb_Config \<Rightarrow> bool" where
  "same_content a b \<longleftrightarrow> cfg_Services a = cfg_Services b \<and> cfg_ProxyConfig a = cfg_ProxyConfig b"

lemma UpdateConfig_content:
  "UpdateConfig order c now s = Next s' \<Longrightarrow> same_content (currentConfig s') c"
  by (auto simp: UpdateConfig_def Let_def same_content_def split: outcome.splits)

lemma register_content: "sub_register sid pid s = Next s' \<Longrightarrow> currentConfig s' = currentConfig s"
  by (auto simp: sub_register_def Let_def split: if_splits option.splits)

lemma cleanup_content: "sub_cleanup sid s = Next s' \<Longrightarrow> currentConfig s' = currentConfig s"
  by (auto simp: sub_cleanup_def Let_def split: if_splits option.splits)

lemma session_content: "sub_step sid ev s = Next s' \<Longrightarrow> currentConfig s' = currentConfig s"
  by (auto simp: sub_step_def Let_def split: if_splits option.splits sub_event.splits list.splits dest!: cleanup_content)

definition control_inv :: "('w \<Rightarrow> int \<Rightarrow> pb_Config) \<Rightarrow> (pb_Config \<Rightarrow> 'e option) \<Rightarrow> 'w control \<Rightarrow> bool" where
  "control_inv buildConfig validate cm \<longleftrightarrow>
     deb_reach buildConfig validate (cm_source cm) \<and> server_reach (cm_server cm) \<and>
     (consumed (cm_source cm) \<noteq> [] \<longrightarrow> same_content (currentConfig (cm_server cm)) (last (consumed (cm_source cm)))) \<and>
     (\<not> cm_forwarding cm \<longrightarrow> d_closed (cm_source cm))"

lemma runDebouncer_frame:
  "runDebouncer buildConfig validate c d = Some d' \<Longrightarrow> consumed d' = consumed d \<and> (d_closed d \<longrightarrow> d_closed d')"
  by (auto simp: runDebouncer_def deb_emit_def Let_def split: if_splits deb_case.splits)

lemma control_inv_forward:
  assumes "control_inv buildConfig validate cm" "subscribers (cm_server cm) = Some subs" "range_order subs order"
    "forward order now cm = Some (Next cm')"
  shows "control_inv buildConfig validate cm'"
proof (cases "configChan (cm_source cm)")
  case Nil
  then show ?thesis using assms(1,4) by (auto simp: forward_def control_inv_def split: if_splits)
next
  case (Cons cfg rest)
  then obtain s where s: "UpdateConfig order cfg now (cm_server cm) = Next s"
      "cm' = cm\<lparr>cm_source := (cm_source cm)\<lparr>configChan := rest, consumed := consumed (cm_source cm) @ [cfg]\<rparr>, cm_server := s\<rparr>"
    using assms(4) by (auto simp: forward_def Let_def split: if_splits outcome.splits)
  then show ?thesis
    using assms(1) deb_consume [of buildConfig validate, OF _ Cons] srv_update [OF _ assms(2,3) s(1)] UpdateConfig_content [OF s(1)]
    by (simp add: control_inv_def)
qed

lemma control_inv_reach: "control_reach buildConfig validate cm \<Longrightarrow> control_inv buildConfig validate cm"
proof (induction rule: control_reach.induct)
  case (ctl_start w signalled now start)
  show ?case
    using deb_start [of buildConfig validate] srv_new
    by (simp add: control_inv_def control_init_def) (simp add: deb_Watch_def deb_emit_def Let_def)
next
  case (ctl_change cm d w)
  then show ?case using deb_change [of buildConfig validate d w] by (simp add: control_inv_def)
next
  case (ctl_notify cm d n)
  then show ?case using deb_notify [of buildConfig validate d n] by (simp add: control_inv_def signalUpdate_def)
next
  case (ctl_tick cm d)
  then show ?case by (simp add: control_inv_def deb_tick)
next
  case (ctl_case cm c d)
  then show ?case using deb_case runDebouncer_frame [OF ctl_case.hyps(2)] by (fastforce simp: control_inv_def)
next
  case (ctl_forward cm subs order now cm')
  then show ?case using control_inv_forward by blast
next
  case (ctl_register cm sid pid s)
  then show ?case using srv_register register_content [OF ctl_register.hyps(2)] by (fastforce simp: control_inv_def)
next
  case (ctl_session cm sid ev s)
  then show ?case using srv_step session_content [OF ctl_session.hyps(2)] by (fastforce simp: control_inv_def)
qed

section \<open>Convergence\<close>

text \<open>
  The contract of a debounced source gives convergence of the whole control plane: at rest, the
  streams of the registered subscribers end with the configuration of what the source watches.
\<close>

context debounced_source
begin

lemma control_plane_follows:
  assumes "control_reach buildConfig validate cm" "subscribers (cm_server cm) = Some subs"
  shows "(cm_forwarding cm \<and> configChan (cm_source cm) \<noteq> [] \<and> range_order subs order \<longrightarrow>
      (\<exists>cm'. forward order now cm = Some (Next cm'))) \<and>
    (quiescent (cm_source cm) \<and> configChan (cm_source cm) = [] \<and> last_result (cm_source cm) = Emitted \<and>
     sessions (cm_server cm) sid = Some se \<and> subs (se_proxy se) = Some (se_chan se) \<longrightarrow>
      same_content (last (stream_of (cm_server cm) se))
        (buildConfig (world (cm_source cm)) (built_at (cm_source cm))))"
proof -
  have inv: "deb_reach buildConfig validate (cm_source cm)" "server_inv (cm_server cm)"
    "consumed (cm_source cm) \<noteq> [] \<Longrightarrow> same_content (currentConfig (cm_server cm)) (last (consumed (cm_source cm)))"
    using control_inv_reach [OF assms(1)] server_reach_inv by (auto simp: control_inv_def)
  have "\<exists>cm'. forward order now cm = Some (Next cm')"
    if f: "cm_forwarding cm" "configChan (cm_source cm) \<noteq> []" "range_order subs order"
  proof -
    obtain cfg rest where c: "configChan (cm_source cm) = cfg # rest" using f(2) by (cases "configChan (cm_source cm)") auto
    obtain s where "UpdateConfig order cfg now (cm_server cm) = Next s"
      by (rule UpdateConfig_ok [OF inv(2) assms(2) f(3) refl, of cfg now]) blast
    then show ?thesis using f(1) c by (simp add: forward_def Let_def)
  qed
  moreover have "same_content (last (stream_of (cm_server cm) se))
      (buildConfig (world (cm_source cm)) (built_at (cm_source cm)))"
    if q: "quiescent (cm_source cm)" "configChan (cm_source cm) = []" "last_result (cm_source cm) = Emitted"
      and se: "sessions (cm_server cm) sid = Some se" "subs (se_proxy se) = Some (se_chan se)"
  proof -
    have "consumed (cm_source cm) \<noteq> []" using deb_inv_reach [OF inv(1)] q(2,3) by (simp add: deb_inv_def)
    moreover have "last (consumed (cm_source cm)) = buildConfig (world (cm_source cm)) (built_at (cm_source cm))"
      using converges [OF inv(1) q(1)] q(2,3) by simp
    ultimately show ?thesis using inv(3) server_inv_subs(2) [OF inv(2) assms(2) se] by simp
  qed
  ultimately show ?thesis by blast
qed

end


text \<open>The same for Consul, whatever the tag filter.\<close>

lemma consul_control_plane_converges:
  assumes "control_reach (consul_buildConfig tag) consul_validate cm" "subscribers (cm_server cm) = Some subs"
    "quiescent (cm_source cm)" "configChan (cm_source cm) = []" "last_result (cm_source cm) = Emitted"
    "sessions (cm_server cm) sid = Some se" "subs (se_proxy se) = Some (se_chan se)"
  shows "same_content (last (stream_of (cm_server cm) se))
    (consul_buildConfig tag (world (cm_source cm)) (built_at (cm_source cm)))"
  using consul.control_plane_follows [OF assms(1,2)] assms(3-7) by blast

section \<open>Witness\<close>


end
