(* ===== verification/File_Client.thy ===== *)
theory File_Client
  imports Config_Source
begin

text \<open>
  \<open>controlplane/file-client.go\<close>: the configuration source that reads a file. Reading and decoding the
  file is viper's work; what it hands over is a record of parameters with the decoded value of
  \<open>services\<close>. Parsing that value, validation and the debounced reload are modelled.
\<close>

section \<open>Decoded values\<close>

text \<open>The dynamic types of an \<open>interface{}\<close> that the parser distinguishes; anything else,
  nil included, is \<open>VOther\<close>. A map is an association list with the keys viper found.\<close>

datatype val = VString string | VList "val list" | VMap "(string \<times> val) list" | VOther

record viper =
  ReadInConfig :: bool
  GetInt :: "string \<Rightarrow> int64"
  GetServices :: val

section \<open>Parsing\<close>

definition getString :: "(string \<times> val) list \<Rightarrow> string \<Rightarrow> string" where
  "getString m key = (case map_of m key of Some (VString str) \<Rightarrow> str | _ \<Rightarrow> '''')"

fun strings_of :: "val list \<Rightarrow> string list \<Rightarrow> string list" where
  "strings_of [] result = result"
| "strings_of (VString str # items) result = strings_of items (result @ [str])"
| "strings_of (_ # items) result = strings_of items result"

definition getStringSlice :: "(string \<times> val) list \<Rightarrow> string \<Rightarrow> string list" where
  "getStringSlice m key = (case map_of m key of Some (VList items) \<Rightarrow> strings_of items [] | _ \<Rightarrow> [])"

text \<open>\<open>m[key]\<close> of an absent key is nil.\<close>

definition lookup_nil :: "(string \<times> val) list \<Rightarrow> string \<Rightarrow> val" where
  "lookup_nil m key = (case map_of m key of None \<Rightarrow> VOther | Some v \<Rightarrow> v)"

text \<open>The three parsers iterate over the maps of a list and skip everything else.\<close>

fun parse_items :: "((string \<times> val) list \<Rightarrow> 'a) \<Rightarrow> val list \<Rightarrow> 'a list \<Rightarrow> 'a list" where
  "parse_items f [] acc = acc"
| "parse_items f (VMap m # items) acc = parse_items f items (acc @ [f m])"
| "parse_items f (_ # items) acc = parse_items f items acc"

definition parseEndpoints :: "val \<Rightarrow> pb_Endpoint list" where
  "parseEndpoints raw =
     (case raw of VList items \<Rightarrow> parse_items (\<lambda>m. \<lparr>ep_Address = getString m ''address''\<rparr>) items [] | _ \<Rightarrow> [])"

definition parseRoutes :: "val \<Rightarrow> pb_Route list" where
  "parseRoutes raw =
     (case raw of
        VList items \<Rightarrow>
          parse_items (\<lambda>m. \<lparr>rt_Path = getString m ''path'', rt_Methods = getStringSlice m ''methods''\<rparr>) items []
      | _ \<Rightarrow> [])"

definition parseServices :: "val \<Rightarrow> pb_Service list" where
  "parseServices raw =
     (case raw of
        VList items \<Rightarrow>
          parse_items (\<lambda>m. \<lparr>svc_Name = getString m ''name'', svc_Routes = parseRoutes (lookup_nil m ''routes''),
                            svc_Endpoints = parseEndpoints (lookup_nil m ''endpoints''), svc_ClusterIp = '''',
                            svc_Port = 0\<rparr>) items []
      | _ \<Rightarrow> [])"

section \<open>Validation\<close>

datatype file_error =
    ReadError | FileConfigRequired | FileProxyConfigRequired | FilePortRequired | FileServiceRequired
  | FileService config_error

fun validate_endpoints :: "nat \<Rightarrow> nat \<Rightarrow> string set \<Rightarrow> pb_Endpoint list \<Rightarrow> config_error option" where
  "validate_endpoints i j seen [] = None"
| "validate_endpoints i j seen (ep # eps) =
     (if ep_Address ep = '''' then Some (EndpointAddressRequired i j)
      else if ep_Address ep \<in> seen then Some (DuplicateEndpoint (ep_Address ep) i)
      else validate_endpoints i (j + 1) (insert (ep_Address ep) seen) eps)"

fun validate_routes :: "nat \<Rightarrow> nat \<Rightarrow> pb_Route list \<Rightarrow> config_error option" where
  "validate_routes i j [] = None"
| "validate_routes i j (r # rs) =
     (if rt_Path r = '''' then Some (RoutePathRequired i j) else validate_routes i (j + 1) rs)"

fun validate_services :: "nat \<Rightarrow> pb_Service list \<Rightarrow> config_error option" where
  "validate_services i [] = None"
| "validate_services i (svc # svcs) =
     (if svc_Name svc = '''' then Some (ServiceNameRequired i)
      else if length (svc_Endpoints svc) = 0 then Some (EndpointRequired i)
      else case validate_endpoints i 0 {} (svc_Endpoints svc) of
             Some e \<Rightarrow> Some e
           | None \<Rightarrow>
               if length (svc_Routes svc) = 0 then Some (RouteRequired i)
               else case validate_routes i 0 (svc_Routes svc) of
                      Some e \<Rightarrow> Some e
                    | None \<Rightarrow> validate_services (i + 1) svcs)"

definition file_validate :: "pb_Config option \<Rightarrow> file_error option" where
  "file_validate config =
     (case config of
        None \<Rightarrow> Some FileConfigRequired
      | Some c \<Rightarrow>
          (case cfg_ProxyConfig c of
             None \<Rightarrow> Some FileProxyConfigRequired
           | Some pc \<Rightarrow>
               if pc_Port pc = 0 then Some FilePortRequired
               else if length (cfg_Services c) = 0 then Some FileServiceRequired
               else map_option FileService (validate_services 0 (cfg_Services c))))"

definition LoadConfig :: "viper \<Rightarrow> file_error + pb_Config" where
  "LoadConfig v =
     (if \<not> ReadInConfig v then Inl ReadError
      else let config =
             \<lparr>cfg_Services = parseServices (GetServices v),
              cfg_ProxyConfig = Some \<lparr>pc_Port = ucast (GetInt v ''proxy.port''),
                pc_MetricsPort = ucast (GetInt v ''proxy.metrics_port''),
                pc_HealthCheckIntervalSeconds = ucast (GetInt v ''proxy.health_check_interval'')\<rparr>,
              cfg_LastUpdated = 0, cfg_Version = ''''\<rparr>
           in case file_validate (Some config) of Some e \<Rightarrow> Inl e | None \<Rightarrow> Inr config)"

section \<open>Watching the file\<close>

text \<open>
  The goroutine of \<open>Watch\<close> and the reload callbacks of its timer. \<open>fw_sending\<close> are the
  callbacks that loaded a configuration and wait at the channel, which has capacity one, first
  come first served; \<open>fw_loaded\<close> is the content that was loaded last.
\<close>

record file_watch =
  fw_file :: viper
  fw_events :: nat
  fw_timer :: bool
  fw_sending :: "pb_Config list"
  fw_chan :: "pb_Config list"
  fw_consumed :: "pb_Config list"
  fw_ctxDone :: bool
  fw_closed :: bool
  fw_loaded :: viper

definition fw_start :: "viper \<Rightarrow> file_watch option" where
  "fw_start v =
     (case LoadConfig v of
        Inl _ \<Rightarrow> None
      | Inr cfg \<Rightarrow> Some \<lparr>fw_file = v, fw_events = 0, fw_timer = False, fw_sending = [], fw_chan = [cfg], fw_consumed = [],
                         fw_ctxDone = False, fw_closed = False, fw_loaded = v\<rparr>)"

definition fw_reload :: "file_watch \<Rightarrow> file_watch" where
  "fw_reload s =
     (let s1 = s\<lparr>fw_timer := False, fw_loaded := fw_file s\<rparr>
      in case LoadConfig (fw_file s) of Inl _ \<Rightarrow> s1 | Inr cfg \<Rightarrow> s1\<lparr>fw_sending := fw_sending s @ [cfg]\<rparr>)"

inductive fw_step :: "file_watch \<Rightarrow> file_watch \<Rightarrow> bool" where
  fw_write: "fw_step s (s\<lparr>fw_file := v, fw_events := fw_events s + 1\<rparr>)"
| fw_event: "fw_events s = Suc n \<Longrightarrow> \<not> fw_closed s \<Longrightarrow> fw_step s (s\<lparr>fw_events := n, fw_timer := True\<rparr>)"
| fw_fire: "fw_timer s \<Longrightarrow> fw_step s (fw_reload s)"
| fw_send: "fw_sending s = cfg # rest \<Longrightarrow> fw_chan s = [] \<Longrightarrow> \<not> fw_closed s \<Longrightarrow>
    fw_step s (s\<lparr>fw_sending := rest, fw_chan := [cfg]\<rparr>)"
| fw_giveup: "fw_sending s = cfg # rest \<Longrightarrow> fw_ctxDone s \<Longrightarrow> fw_step s (s\<lparr>fw_sending := rest\<rparr>)"
| fw_consume: "fw_chan s = cfg # rest \<Longrightarrow> fw_step s (s\<lparr>fw_chan := rest, fw_consumed := fw_consumed s @ [cfg]\<rparr>)"
| fw_cancel: "fw_step s (s\<lparr>fw_ctxDone := True\<rparr>)"
| fw_stop: "fw_ctxDone s \<Longrightarrow> \<not> fw_closed s \<Longrightarrow> fw_step s (s\<lparr>fw_closed := True, fw_timer := False\<rparr>)"

text \<open>A callback that waits at a closed channel may take the sending case of its \<open>select\<close>, which panics.\<close>

definition fw_may_panic :: "file_watch \<Rightarrow> bool" where
  "fw_may_panic s \<longleftrightarrow> fw_closed s \<and> fw_sending s \<noteq> []"

interpretation fc: config_source "\<lambda>c. file_validate (Some c)"
  by unfold_locales (auto simp: file_validate_def split: option.splits if_splits)

section \<open>Round trip\<close>

text \<open>How a service is written in the file.\<close>

definition print_endpoint :: "pb_Endpoint \<Rightarrow> val" where
  "print_endpoint ep = VMap [(''address'', VString (ep_Address ep))]"

definition print_route :: "pb_Route \<Rightarrow> val" where
  "print_route r = VMap [(''path'', VString (rt_Path r)), (''methods'', VList (map VString (rt_Methods r)))]"

definition print_service :: "pb_Service \<Rightarrow> val" where
  "print_service s =
     VMap [(''name'', VString (svc_Name s)), (''endpoints'', VList (map print_endpoint (svc_Endpoints s))),
           (''routes'', VList (map print_route (svc_Routes s)))]"

lemma parse_items_map:
  "(\<And>x. x \<in> set xs \<Longrightarrow> \<exists>m. p x = VMap m \<and> f m = g x) \<Longrightarrow> parse_items f (map p xs) acc = acc @ map g xs"
proof (induction xs arbitrary: acc)
  case (Cons x xs)
  obtain m where "p x = VMap m" "f m = g x" using Cons.prems [of x] by auto
  then show ?case using Cons by simp
qed simp

lemma strings_of_map: "strings_of (map VString ss) acc = acc @ ss"
  by (induction ss arbitrary: acc) simp_all

lemma parse_print_endpoints: "parseEndpoints (VList (map print_endpoint eps)) = eps"
proof -
  have "parseEndpoints (VList (map print_endpoint eps)) = [] @ map (\<lambda>ep. ep) eps"
    unfolding parseEndpoints_def val.case
    by (rule parse_items_map) (auto simp: print_endpoint_def getString_def)
  then show ?thesis by simp
qed

lemma parse_print_routes: "parseRoutes (VList (map print_route rs)) = rs"
proof -
  have "parseRoutes (VList (map print_route rs)) = [] @ map (\<lambda>r. r) rs"
    unfolding parseRoutes_def val.case
    by (rule parse_items_map) (auto simp: print_route_def getString_def getStringSlice_def strings_of_map)
  then show ?thesis by simp
qed

text \<open>
  C30. Parsing inverts printing: services written to the file with names, endpoints, routes and methods are
  read back as they are, in their order; cluster IP and port, which the format does not have,
  come back empty.
\<close>

theorem file_services_roundtrip:
  "parseServices (VList (map print_service svcs)) = map (\<lambda>s. s\<lparr>svc_ClusterIp := '''', svc_Port := 0\<rparr>) svcs"
proof -
  have "parseServices (VList (map print_service svcs)) = [] @ map (\<lambda>s. s\<lparr>svc_ClusterIp := '''', svc_Port := 0\<rparr>) svcs"
    unfolding parseServices_def val.case
    by (rule parse_items_map)
       (auto simp: print_service_def getString_def lookup_nil_def parse_print_endpoints parse_print_routes)
  then show ?thesis by simp
qed

section \<open>Validation against the proxy\<close>

lemma validate_endpoints_None:
  "validate_endpoints i j seen eps = None \<longleftrightarrow>
     distinct (map ep_Address eps) \<and> '''' \<notin> ep_Address ` set eps \<and> seen \<inter> ep_Address ` set eps = {}"
  by (induction i j seen eps rule: validate_endpoints.induct) auto

lemma validate_routes_None: "validate_routes i j rs = None \<longleftrightarrow> (\<forall>r\<in>set rs. rt_Path r \<noteq> '''')"
  by (induction i j rs rule: validate_routes.induct) auto

definition file_service_ok :: "pb_Service \<Rightarrow> bool" where
  "file_service_ok s \<longleftrightarrow> svc_Name s \<noteq> '''' \<and> endpoints_ok (svc_Endpoints s) \<and> svc_Routes s \<noteq> [] \<and>
     (\<forall>r\<in>set (svc_Routes s). rt_Path r \<noteq> '''')"

lemma validate_services_Cons:
  "validate_services i (s # svcs) = None \<longleftrightarrow> file_service_ok s \<and> validate_services (i + 1) svcs = None"
proof -
  have "(case x of None \<Rightarrow> y | Some e \<Rightarrow> Some e) = None \<longleftrightarrow> x = None \<and> y = None" for x and y :: "config_error option"
    by (cases x) simp_all
  then show ?thesis
    using validate_endpoints_None [of i 0 "{}" "svc_Endpoints s"] validate_routes_None [of i 0 "svc_Routes s"]
    by (simp add: file_service_ok_def endpoints_ok_def)
qed

lemma validate_services_None: "validate_services i svcs = None \<longleftrightarrow> (\<forall>s\<in>set svcs. file_service_ok s)"
proof (induction svcs arbitrary: i)
  case (Cons s svcs)
  then show ?case unfolding validate_services_Cons by simp
qed simp

lemma file_validate_None:
  "file_validate (Some c) = None \<longleftrightarrow>
     (\<exists>pc. cfg_ProxyConfig c = Some pc \<and> pc_Port pc \<noteq> 0) \<and> cfg_Services c \<noteq> [] \<and> (\<forall>s\<in>set (cfg_Services c). file_service_ok s)"
  by (auto simp: file_validate_def validate_services_None split: option.split)

lemma service_ok_file: "service_ok s \<longleftrightarrow> file_service_ok s \<and> (\<forall>r\<in>set (svc_Routes s). \<exists>m\<in>set (rt_Methods r). m \<noteq> '''')"
  by (auto simp: service_ok_def file_service_ok_def routes_ok_def)


section \<open>Reloading\<close>

inductive fw_reach :: "file_watch \<Rightarrow> bool" where
  fw_init: "fw_start v = Some s \<Longrightarrow> fw_reach s"
| fw_next: "fw_reach s \<Longrightarrow> fw_step s t \<Longrightarrow> fw_reach t"

text \<open>Everything that is or will be delivered, in order.\<close>

definition fw_stream :: "file_watch \<Rightarrow> pb_Config list" where
  "fw_stream s = fw_consumed s @ fw_chan s @ fw_sending s"

definition fw_inv :: "file_watch \<Rightarrow> bool" where
  "fw_inv s \<longleftrightarrow>
     (fw_events s = 0 \<and> \<not> fw_timer s \<and> \<not> fw_ctxDone s \<longrightarrow> fw_loaded s = fw_file s) \<and>
     (fw_closed s \<longrightarrow> fw_ctxDone s) \<and> length (fw_chan s) \<le> 1 \<and>
     (\<not> fw_ctxDone s \<longrightarrow> (\<forall>cfg. LoadConfig (fw_loaded s) = Inr cfg \<longrightarrow> fw_stream s \<noteq> [] \<and> last (fw_stream s) = cfg)) \<and>
     (\<forall>c\<in>set (fw_stream s). file_validate (Some c) = None)"

lemma LoadConfig_valid: "LoadConfig v = Inr c \<Longrightarrow> file_validate (Some c) = None"
  by (auto simp: LoadConfig_def Let_def split: if_splits option.splits)

lemma fw_inv_step:
  assumes "fw_step s t" "fw_inv s"
  shows "fw_inv t"
  using assms
proof (cases rule: fw_step.cases)
  case fw_fire
  show ?thesis
  proof (cases "LoadConfig (fw_file s)")
    case (Inl e)
    then show ?thesis using fw_fire assms(2) by (simp add: fw_reload_def fw_inv_def fw_stream_def)
  next
    case (Inr cfg)
    then show ?thesis using fw_fire assms(2) LoadConfig_valid [OF Inr] by (auto simp: fw_reload_def fw_inv_def fw_stream_def)
  qed
qed (auto simp: fw_inv_def fw_stream_def)

lemma fw_inv_reach: "fw_reach s \<Longrightarrow> fw_inv s"
proof (induction rule: fw_reach.induct)
  case (fw_init v s)
  then show ?case
    by (auto simp: fw_start_def fw_inv_def fw_stream_def LoadConfig_valid split: sum.splits)
qed (rule fw_inv_step)


section \<open>Witnesses\<close>

definition example_file :: viper where
  "example_file =
     \<lparr>ReadInConfig = True, GetInt = (\<lambda>_. 8089),
      GetServices = VList [VOther, print_service \<lparr>svc_Name = ''users'', svc_Routes = [\<lparr>rt_Path = ''/u'', rt_Methods = [''GET'']\<rparr>],
        svc_Endpoints = [\<lparr>ep_Address = ''10.1.0.1:5001''\<rparr>], svc_ClusterIp = '''', svc_Port = 0\<rparr>]\<rparr>"

definition example_file_config :: pb_Config where
  "example_file_config =
     \<lparr>cfg_Services = [\<lparr>svc_Name = ''users'', svc_Routes = [\<lparr>rt_Path = ''/u'', rt_Methods = [''GET'']\<rparr>],
        svc_Endpoints = [\<lparr>ep_Address = ''10.1.0.1:5001''\<rparr>], svc_ClusterIp = '''', svc_Port = 0\<rparr>],
      cfg_ProxyConfig = Some \<lparr>pc_Port = 8089, pc_MetricsPort = 8089, pc_HealthCheckIntervalSeconds = 8089\<rparr>,
      cfg_LastUpdated = 0, cfg_Version = ''''\<rparr>"

lemma example_file_loads: "LoadConfig example_file = Inr example_file_config"
proof -
  have "parseServices (GetServices example_file) = cfg_Services example_file_config"
    by (simp add: example_file_def example_file_config_def parseServices_def print_service_def print_endpoint_def print_route_def
        getString_def getStringSlice_def lookup_nil_def parseEndpoints_def parseRoutes_def)
  moreover have "file_validate (Some example_file_config) = None"
    by (simp add: file_validate_None example_file_config_def file_service_ok_def endpoints_ok_def)
  ultimately show ?thesis
    by (simp add: LoadConfig_def) (simp add: example_file_def example_file_config_def)
qed


text \<open>A write that has been loaded while the watch is cancelled leaves a sender at a closed channel.\<close>

lemma fw_cancel_may_panic: "\<exists>s. fw_reach s \<and> fw_may_panic s"
proof -
  let ?s0 = "\<lparr>fw_file = example_file, fw_events = 0, fw_timer = False, fw_sending = [], fw_chan = [example_file_config],
    fw_consumed = [], fw_ctxDone = False, fw_closed = False, fw_loaded = example_file\<rparr>"
  have 0: "fw_reach ?s0" by (rule fw_init [of example_file]) (simp add: fw_start_def example_file_loads)
  have 1: "fw_reach (?s0\<lparr>fw_events := 1\<rparr>)" using fw_next [OF 0 fw_write [of _ example_file]] by simp
  have 2: "fw_reach (?s0\<lparr>fw_timer := True\<rparr>)" using fw_next [OF 1 fw_event [of _ 0]] by simp
  have 3: "fw_reach (?s0\<lparr>fw_sending := [example_file_config]\<rparr>)"
    using fw_next [OF 2 fw_fire] by (simp add: fw_reload_def example_file_loads)
  have 4: "fw_reach (?s0\<lparr>fw_sending := [example_file_config], fw_ctxDone := True\<rparr>)"
    using fw_next [OF 3 fw_cancel] by simp
  let ?s = "?s0\<lparr>fw_sending := [example_file_config], fw_ctxDone := True, fw_closed := True\<rparr>"
  have "fw_reach ?s" using fw_next [OF 4 fw_stop] by simp
  moreover have "fw_may_panic ?s" by (simp add: fw_may_panic_def)
  ultimately show ?thesis by blast
qed


end
