(* ===== verification/Injector.thy ===== *)
theory Injector
  imports Sidecar_Net
begin

text \<open>
  \<open>controlplane/injector/injector.go\<close>: the admission webhook that adds the sidecar to pods. A pod is
  the part of the Kubernetes object the injector reads or writes; decoding, JSON marshalling and
  the computation of the patch are parameters. The package variables are a record, because
  \<open>injectSidecar\<close> writes one of them. A nil map is the empty map: the code makes it before it
  writes to it.
\<close>

section \<open>Pods\<close>

record SecurityContext =
  sc_RunAsUser :: int64
  sc_RunAsNonRoot :: bool
  sc_AllowPrivilegeEscalation :: "bool option"
  sc_ReadOnlyRootFilesystem :: "bool option"
  sc_Add :: "string list"
  sc_Drop :: "string list"
  sc_Seccomp :: "string option"

datatype env_source = Value string | FieldRef string

record EnvVar =
  ev_Name :: string
  ev_Value :: env_source

record ContainerPort =
  cp_Name :: string
  cp_Port :: int32

datatype IntOrString = IntVal int32 | StrVal string

text \<open>A probe; \<open>None\<close> stands for the handlers other than HTTP.\<close>

record HTTPGetAction =
  hg_Path :: string
  hg_Port :: IntOrString

record Probe =
  pr_HTTPGet :: "HTTPGetAction option"
  pr_InitialDelaySeconds :: int32
  pr_PeriodSeconds :: int32

record VolumeMount =
  vm_Name :: string
  vm_MountPath :: string
  vm_ReadOnly :: bool

record Container =
  c_Name :: string
  c_Image :: string
  c_ImagePullPolicy :: string
  c_Ports :: "ContainerPort list"
  c_Env :: "EnvVar list"
  c_SecurityContext :: "SecurityContext option"
  c_Requests :: "(string \<times> string) list"
  c_Limits :: "(string \<times> string) list"
  c_VolumeMounts :: "VolumeMount list"
  c_LivenessProbe :: "Probe option"
  c_ReadinessProbe :: "Probe option"
  c_StartupProbe :: "Probe option"

record Volume =
  vol_Name :: string
  vol_SecretName :: string

record Pod =
  pod_Annotations :: "string \<rightharpoonup> string"
  pod_Labels :: "string \<rightharpoonup> string"
  pod_HostNetwork :: bool
  pod_InitContainers :: "Container list"
  pod_Containers :: "Container list"
  pod_Volumes :: "Volume list"

section \<open>Package variables\<close>

record injector =
  SidecarImage :: string
  InitImage :: string
  ProxyPort :: int32
  InboundPort :: int32
  ProxyUID :: int64
  ControlPlaneEndpoint :: string
  DebugMode :: bool
  mtlsEnabled :: string

definition IgnoredNamespaces :: "string list" where
  "IgnoredNamespaces = [''kube-system'', ''kube-public'', ''cert-manager'', ''ananse-system'']"

text \<open>\<open>strconv.Atoi\<close> where it reports no error.\<close>

definition Atoi_ok :: "string \<Rightarrow> int option" where
  "Atoi_ok s =
     (let (neg, ds) = (case s of [] \<Rightarrow> (False, []) | c # cs \<Rightarrow>
            if c = CHR ''-'' then (True, cs) else if c = CHR ''+'' then (False, cs) else (False, s));
          v = (if neg then - int (digits_val ds) else int (digits_val ds))
      in if ds = [] \<or> \<not> list_all is_digit ds \<or> v \<ge> 2 ^ 63 \<or> v < - (2 ^ 63) then None else Some v)"

definition getEnv :: "(string \<rightharpoonup> string) \<Rightarrow> string \<Rightarrow> string \<Rightarrow> string" where
  "getEnv environ key fallback = (case environ key of Some val \<Rightarrow> val | None \<Rightarrow> fallback)"

definition getEnvInt :: "(string \<rightharpoonup> string) \<Rightarrow> string \<Rightarrow> int64 \<Rightarrow> int64" where
  "getEnvInt environ key fallback =
     (case environ key of
        Some val \<Rightarrow> (case Atoi_ok val of Some i \<Rightarrow> word_of_int i | None \<Rightarrow> fallback)
      | None \<Rightarrow> fallback)"

definition init_vars :: "(string \<rightharpoonup> string) \<Rightarrow> injector" where
  "init_vars environ =
     \<lparr>SidecarImage = getEnv environ ''SIDECAR_IMAGE'' ''ghcr.io/ananselabs/ananse-proxy:latest'',
      InitImage = getEnv environ ''INIT_IMAGE'' ''ghcr.io/ananselabs/ananse-init:latest'',
      ProxyPort = ucast (getEnvInt environ ''PROXY_PORT'' 15001),
      InboundPort = ucast (getEnvInt environ ''INBOUND_PORT'' 15006),
      ProxyUID = getEnvInt environ ''PROXY_UID'' 1337,
      ControlPlaneEndpoint = getEnv environ ''CONTROL_PLANE_ENDPOINT'' ''ananse-controlplane.ananse-system.svc:50051'',
      DebugMode = (getEnv environ ''DEBUG_MODE'' ''false'' = ''true''),
      mtlsEnabled = ''false''\<rparr>"

section \<open>Decision and injection\<close>

definition injectRequired :: "Pod \<Rightarrow> string \<Rightarrow> bool" where
  "injectRequired pod ns =
     (if pod_HostNetwork pod then False
      else if list_ex (\<lambda>ignore. ns = ignore) IgnoredNamespaces then False
      else case pod_Annotations pod ''sidecar.ananse.io/inject'' of
             Some ann \<Rightarrow> ToLower ann = ''true''
           | None \<Rightarrow> True)"

definition initContainer :: "injector \<Rightarrow> Container" where
  "initContainer v =
     \<lparr>c_Name = ''ananse-init'', c_Image = InitImage v, c_ImagePullPolicy = ''IfNotPresent'', c_Ports = [],
      c_Env = [\<lparr>ev_Name = ''PROXY_PORT'', ev_Value = Value (itoa (sint (ProxyPort v)))\<rparr>,
               \<lparr>ev_Name = ''INBOUND_PORT'', ev_Value = Value (itoa (sint (InboundPort v)))\<rparr>,
               \<lparr>ev_Name = ''PROXY_UID'', ev_Value = Value (if DebugMode v then ''0'' else itoa (sint (ProxyUID v)))\<rparr>],
      c_SecurityContext = Some \<lparr>sc_RunAsUser = 0, sc_RunAsNonRoot = False, sc_AllowPrivilegeEscalation = None,
        sc_ReadOnlyRootFilesystem = None, sc_Add = [''NET_ADMIN'', ''NET_RAW''], sc_Drop = [''ALL''], sc_Seccomp = None\<rparr>,
      c_Requests = [], c_Limits = [], c_VolumeMounts = [],
      c_LivenessProbe = None, c_ReadinessProbe = None, c_StartupProbe = None\<rparr>"

definition sidecar_security :: "injector \<Rightarrow> SecurityContext" where
  "sidecar_security v =
     (if DebugMode v
      then \<lparr>sc_RunAsUser = 0, sc_RunAsNonRoot = False, sc_AllowPrivilegeEscalation = Some True,
            sc_ReadOnlyRootFilesystem = Some False, sc_Add = [], sc_Drop = [], sc_Seccomp = Some ''Unconfined''\<rparr>
      else \<lparr>sc_RunAsUser = ProxyUID v, sc_RunAsNonRoot = True, sc_AllowPrivilegeEscalation = Some False,
            sc_ReadOnlyRootFilesystem = Some True, sc_Add = [], sc_Drop = [''ALL''], sc_Seccomp = None\<rparr>)"

definition sidecar_env :: "(string \<rightharpoonup> string) \<Rightarrow> injector \<Rightarrow> EnvVar list" where
  "sidecar_env environ v =
     [\<lparr>ev_Name = ''ANANSE_MODE'', ev_Value = Value ''sidecar''\<rparr>,
      \<lparr>ev_Name = ''ANANSE_TRACING_ENABLED'', ev_Value = Value (getEnv environ ''TRACING_ENABLED'' ''false'')\<rparr>,
      \<lparr>ev_Name = ''OTEL_EXPORTER_OTLP_ENDPOINT'', ev_Value = Value (getEnv environ ''OTEL_ENDPOINT'' '''')\<rparr>,
      \<lparr>ev_Name = ''ANANSE_MTLS_ENABLED'', ev_Value = Value (mtlsEnabled v)\<rparr>,
      \<lparr>ev_Name = ''GOMEMLIMIT'', ev_Value = Value ''480MiB''\<rparr>,
      \<lparr>ev_Name = ''POD_NAME'', ev_Value = FieldRef ''metadata.name''\<rparr>,
      \<lparr>ev_Name = ''SERVICE_NAME'', ev_Value = FieldRef (''metadata.labels['' @ [CHR 0x27] @ ''app'' @ [CHR 0x27] @ '']'')\<rparr>,
      \<lparr>ev_Name = ''POD_NAMESPACE'', ev_Value = FieldRef ''metadata.namespace''\<rparr>,
      \<lparr>ev_Name = ''CONTROL_PLANE_ENDPOINT'', ev_Value = Value (ControlPlaneEndpoint v)\<rparr>]"

definition admin_probe :: "string \<Rightarrow> int32 \<Rightarrow> int32 \<Rightarrow> Probe" where
  "admin_probe path delay period =
     \<lparr>pr_HTTPGet = Some \<lparr>hg_Path = path, hg_Port = IntVal 15021\<rparr>, pr_InitialDelaySeconds = delay, pr_PeriodSeconds = period\<rparr>"

definition sidecarContainer :: "(string \<rightharpoonup> string) \<Rightarrow> injector \<Rightarrow> Container" where
  "sidecarContainer environ v =
     \<lparr>c_Name = ''ananse-proxy'', c_Image = SidecarImage v, c_ImagePullPolicy = ''IfNotPresent'',
      c_Ports = [\<lparr>cp_Name = ''outbound'', cp_Port = 15001\<rparr>, \<lparr>cp_Name = ''inbound'', cp_Port = 15006\<rparr>,
                 \<lparr>cp_Name = ''ananse-admin'', cp_Port = 15021\<rparr>],
      c_Env = sidecar_env environ v, c_SecurityContext = Some (sidecar_security v),
      c_Requests = [(''cpu'', ''10m''), (''memory'', ''20Mi'')], c_Limits = [(''cpu'', ''200m''), (''memory'', ''512Mi'')],
      c_VolumeMounts = (if mtlsEnabled v = ''true''
        then [\<lparr>vm_Name = ''ananse-mesh-certs'', vm_MountPath = ''/etc/ananse/certs'', vm_ReadOnly = True\<rparr>] else []),
      c_LivenessProbe = (if \<not> DebugMode v then Some (admin_probe ''/healthz'' 10 10) else None),
      c_ReadinessProbe = (if \<not> DebugMode v then Some (admin_probe ''/ready'' 2 5) else None),
      c_StartupProbe = None\<rparr>"

definition injectSidecar :: "(string \<rightharpoonup> string) \<Rightarrow> Pod \<Rightarrow> injector \<Rightarrow> Pod \<times> injector" where
  "injectSidecar environ pod v0 =
     (let v = (if pod_Annotations pod ''sidecar.ananse.io/mtls'' = Some ''true'' then v0\<lparr>mtlsEnabled := ''true''\<rparr> else v0);
          p1 = pod\<lparr>pod_InitContainers := pod_InitContainers pod @ [initContainer v],
                   pod_Containers := pod_Containers pod @ [sidecarContainer environ v]\<rparr>;
          p2 = (if mtlsEnabled v = ''true''
                then p1\<lparr>pod_Volumes := pod_Volumes p1 @ [\<lparr>vol_Name = ''ananse-mesh-certs'', vol_SecretName = ''ananse-mesh-certs''\<rparr>]\<rparr>
                else p1)
      in (p2\<lparr>pod_Annotations := (pod_Annotations p2)(''sidecar.ananse.io/status'' \<mapsto> ''injected''),
             pod_Labels := (pod_Labels p2)(''sidecar.ananse.io/status'' \<mapsto> ''injected'')\<rparr>, v))"

section \<open>The webhook\<close>

text \<open>
  The library calls: decoding a pod, marshalling a pod, the patch between two documents (already
  marshalled again), each with an error message on failure.
\<close>

record json_lib =
  jl_decodePod :: "string \<Rightarrow> string + Pod"
  jl_marshalPod :: "Pod \<Rightarrow> string + string"
  jl_CreatePatch :: "string \<Rightarrow> string \<Rightarrow> string + string"

record AdmissionRequest =
  ar_UID :: string
  ar_Namespace :: string
  ar_Raw :: string

record AdmissionResponse =
  as_UID :: string
  as_Allowed :: bool
  as_Message :: "string option"
  as_Patch :: "string option"

definition createPatch :: "json_lib \<Rightarrow> string \<Rightarrow> Pod \<Rightarrow> string + string" where
  "createPatch lib originalJSON modifiedPod =
     (case jl_marshalPod lib modifiedPod of
        Inl e \<Rightarrow> Inl e
      | Inr modifiedJSON \<Rightarrow> jl_CreatePatch lib originalJSON modifiedJSON)"

definition mutatePod ::
  "json_lib \<Rightarrow> (string \<rightharpoonup> string) \<Rightarrow> AdmissionRequest \<Rightarrow> injector \<Rightarrow> AdmissionResponse \<times> injector" where
  "mutatePod lib environ req v =
     (case jl_decodePod lib (ar_Raw req) of
        Inl e \<Rightarrow> (\<lparr>as_UID = '''', as_Allowed = False, as_Message = Some e, as_Patch = None\<rparr>, v)
      | Inr pod \<Rightarrow>
          if \<not> injectRequired pod (ar_Namespace req)
          then (\<lparr>as_UID = '''', as_Allowed = True, as_Message = None, as_Patch = None\<rparr>, v)
          else (case injectSidecar environ pod v of
                  (modifiedPod, v') \<Rightarrow>
                    (case createPatch lib (ar_Raw req) modifiedPod of
                       Inl e \<Rightarrow> (\<lparr>as_UID = '''', as_Allowed = False, as_Message = Some e, as_Patch = None\<rparr>, v')
                     | Inr patch \<Rightarrow> (\<lparr>as_UID = '''', as_Allowed = True, as_Message = None, as_Patch = Some patch\<rparr>, v'))))"

text \<open>
  The handler, from the result of reading the body; a review without a request is dereferenced.
\<close>

datatype mutate_reply = MutateError string int | MutatePanic | MutateJSON AdmissionResponse

definition handleMutate ::
  "json_lib \<Rightarrow> (string \<Rightarrow> string + AdmissionRequest option) \<Rightarrow> (AdmissionResponse \<Rightarrow> string option) \<Rightarrow>
   (string \<rightharpoonup> string) \<Rightarrow> string + string \<Rightarrow> injector \<Rightarrow> mutate_reply \<times> injector" where
  "handleMutate lib decodeReview marshal_error environ body v =
     (case body of
        Inl e \<Rightarrow> (MutateError e 400, v)
      | Inr bytes \<Rightarrow>
          (case decodeReview bytes of
             Inl e \<Rightarrow> (MutateError e 400, v)
           | Inr None \<Rightarrow> (MutatePanic, v)
           | Inr (Some req) \<Rightarrow>
               (case mutatePod lib environ req v of
                  (response, v') \<Rightarrow>
                    let r = response\<lparr>as_UID := ar_UID req\<rparr>
                    in case marshal_error r of
                         Some e \<Rightarrow> (MutateError e 500, v')
                       | None \<Rightarrow> (MutateJSON r, v'))))"

section \<open>Serving the webhook\<close>

text \<open>
  \<open>webhook.go\<close> and \<open>StartInjection\<close>: the routes of the default mux, the address, and the wait of
  \<open>StartWebhookServer\<close>, which ends with a signal or with the failure of the TLS server. It runs in a
  goroutine of the control plane, which does not look at it again.
\<close>

datatype webhook_route = ToMutate | WebhookHealthy | WebhookNotFound

definition injection_mux :: "string \<Rightarrow> webhook_route" where
  "injection_mux path =
     (if path = ''/mutate'' then ToMutate else if path = ''/health'' then WebhookHealthy else WebhookNotFound)"

definition webhook_port :: "string \<Rightarrow> string" where
  "webhook_port port = (if port = '''' then '':8443'' else port)"

datatype webhook_event = WebhookSignal | WebhookServerFailed

record webhook_run =
  wr_cancelled :: bool
  wr_returned :: bool

definition webhook_step :: "webhook_event \<Rightarrow> webhook_run \<Rightarrow> webhook_run" where
  "webhook_step ev w =
     (if wr_returned w then w
      else case ev of
             WebhookSignal \<Rightarrow> w\<lparr>wr_returned := True\<rparr>
           | WebhookServerFailed \<Rightarrow> w\<lparr>wr_cancelled := True, wr_returned := True\<rparr>)"

section \<open>Probe rewriting\<close>

text \<open>The three probes of a container; the code has the same block for each of them.\<close>

datatype probe_kind = Liveness | Readiness | Startup

fun kind_name :: "probe_kind \<Rightarrow> string" where
  "kind_name Liveness = ''liveness''"
| "kind_name Readiness = ''readiness''"
| "kind_name Startup = ''startup''"

fun kind_env :: "probe_kind \<Rightarrow> string" where
  "kind_env Liveness = ''ANANSE_LIVENESS''"
| "kind_env Readiness = ''ANANSE_READINESS''"
| "kind_env Startup = ''ANANSE_STARTUP''"

fun kind_endpoint :: "probe_kind \<Rightarrow> string" where
  "kind_endpoint Liveness = ''livez''"
| "kind_endpoint Readiness = ''readyz''"
| "kind_endpoint Startup = ''startupz''"

fun get_probe :: "probe_kind \<Rightarrow> Container \<Rightarrow> Probe option" where
  "get_probe Liveness c = c_LivenessProbe c"
| "get_probe Readiness c = c_ReadinessProbe c"
| "get_probe Startup c = c_StartupProbe c"

fun set_probe :: "probe_kind \<Rightarrow> Probe \<Rightarrow> Container \<Rightarrow> Container" where
  "set_probe Liveness p c = c\<lparr>c_LivenessProbe := Some p\<rparr>"
| "set_probe Readiness p c = c\<lparr>c_ReadinessProbe := Some p\<rparr>"
| "set_probe Startup p c = c\<lparr>c_StartupProbe := Some p\<rparr>"

definition getProbePort :: "IntOrString \<Rightarrow> Container \<Rightarrow> int" where
  "getProbePort port container =
     (case port of
        IntVal i \<Rightarrow> sint i
      | StrVal s \<Rightarrow>
          (case find (\<lambda>p. cp_Name p = s) (c_Ports container) of
             Some p \<Rightarrow> sint (cp_Port p)
           | None \<Rightarrow> (case Atoi_ok s of Some i \<Rightarrow> i | None \<Rightarrow> 8080)))"

definition storeProbeAnnotation ::
  "(int \<Rightarrow> string \<Rightarrow> string option) \<Rightarrow> string \<Rightarrow> string \<Rightarrow> int \<Rightarrow> string \<Rightarrow> (string \<rightharpoonup> string) \<Rightarrow> (string \<rightharpoonup> string)" where
  "storeProbeAnnotation marshal containerName probeType port path ann =
     (case marshal port path of
        None \<Rightarrow> ann
      | Some configJSON \<Rightarrow> ann(''ananse.io/original-'' @ probeType @ ''-probe-'' @ containerName \<mapsto> configJSON))"

definition rewrite_probe ::
  "(int \<Rightarrow> string \<Rightarrow> string option) \<Rightarrow> probe_kind \<Rightarrow> Container \<times> (string \<rightharpoonup> string) \<times> EnvVar list \<Rightarrow>
   Container \<times> (string \<rightharpoonup> string) \<times> EnvVar list" where
  "rewrite_probe marshal k st =
     (case st of (c, ann, envVars) \<Rightarrow>
        (case get_probe k c of
           None \<Rightarrow> st
         | Some probe \<Rightarrow>
             (case pr_HTTPGet probe of
                None \<Rightarrow> st
              | Some get \<Rightarrow>
                  let originalPort = getProbePort (hg_Port get) c;
                      originalPath = (if hg_Path get = '''' then ''/'' else hg_Path get)
                  in (set_probe k (probe\<lparr>pr_HTTPGet := Some \<lparr>hg_Path = ''/app-health/'' @ c_Name c @ ''/'' @ kind_endpoint k,
                                                              hg_Port = IntVal 15021\<rparr>\<rparr>) c,
                      storeProbeAnnotation marshal (c_Name c) (kind_name k) originalPort originalPath ann,
                      envVars @ [\<lparr>ev_Name = kind_env k @ ''_PORT'', ev_Value = Value (itoa originalPort)\<rparr>,
                                 \<lparr>ev_Name = kind_env k @ ''_PATH'', ev_Value = Value originalPath\<rparr>]))))"

fun rewrite_containers ::
  "(int \<Rightarrow> string \<Rightarrow> string option) \<Rightarrow> Container list \<Rightarrow> (string \<rightharpoonup> string) \<Rightarrow> EnvVar list \<Rightarrow>
   Container list \<times> (string \<rightharpoonup> string) \<times> EnvVar list" where
  "rewrite_containers marshal [] ann envVars = ([], ann, envVars)"
| "rewrite_containers marshal (c # cs) ann envVars =
     (if c_Name c = ''ananse-proxy'' \<or> c_Name c = ''ananse-init''
      then (case rewrite_containers marshal cs ann envVars of (cs', r) \<Rightarrow> (c # cs', r))
      else (case fold (rewrite_probe marshal) [Liveness, Readiness, Startup] (c, ann, envVars) of
              (c', ann', envVars') \<Rightarrow>
                (case rewrite_containers marshal cs ann' envVars' of (cs', r) \<Rightarrow> (c' # cs', r))))"

definition rewriteProbes :: "(int \<Rightarrow> string \<Rightarrow> string option) \<Rightarrow> Pod \<Rightarrow> Pod \<times> EnvVar list" where
  "rewriteProbes marshal pod =
     (case rewrite_containers marshal (pod_Containers pod) (pod_Annotations pod) [] of
        (cs, ann, envVars) \<Rightarrow> (pod\<lparr>pod_Containers := cs, pod_Annotations := ann\<rparr>, envVars))"

section \<open>Injection\<close>

definition wants_sidecar :: "Pod \<Rightarrow> string \<Rightarrow> bool" where
  "wants_sidecar pod ns \<longleftrightarrow>
     \<not> pod_HostNetwork pod \<and> ns \<notin> {''kube-system'', ''kube-public'', ''cert-manager'', ''ananse-system''} \<and>
     (\<forall>ann. pod_Annotations pod ''sidecar.ananse.io/inject'' = Some ann \<longrightarrow> ToLower ann = ''true'')"

lemma injectRequired_iff: "injectRequired pod ns \<longleftrightarrow> wants_sidecar pod ns"
  by (auto simp: injectRequired_def wants_sidecar_def IgnoredNamespaces_def split: option.split)

text \<open>What injection adds to a pod, and nothing else.\<close>

definition extends_pod :: "Pod \<Rightarrow> Container \<Rightarrow> Container \<Rightarrow> Volume list \<Rightarrow> Pod \<Rightarrow> bool" where
  "extends_pod pod init side vols p \<longleftrightarrow>
     pod_InitContainers p = pod_InitContainers pod @ [init] \<and> pod_Containers p = pod_Containers pod @ [side] \<and>
     pod_Volumes p = pod_Volumes pod @ vols \<and> pod_HostNetwork p = pod_HostNetwork pod \<and>
     pod_Annotations p = (pod_Annotations pod)(''sidecar.ananse.io/status'' \<mapsto> ''injected'') \<and>
     pod_Labels p = (pod_Labels pod)(''sidecar.ananse.io/status'' \<mapsto> ''injected'')"

definition mtls_after :: "Pod \<Rightarrow> injector \<Rightarrow> injector" where
  "mtls_after pod v = (if pod_Annotations pod ''sidecar.ananse.io/mtls'' = Some ''true'' then v\<lparr>mtlsEnabled := ''true''\<rparr> else v)"

lemma injectSidecar_extends:
  "extends_pod pod (initContainer (mtls_after pod v)) (sidecarContainer environ (mtls_after pod v))
     (if mtlsEnabled (mtls_after pod v) = ''true''
      then [\<lparr>vol_Name = ''ananse-mesh-certs'', vol_SecretName = ''ananse-mesh-certs''\<rparr>] else [])
     (fst (injectSidecar environ pod v)) \<and> snd (injectSidecar environ pod v) = mtls_after pod v"
  by (simp add: injectSidecar_def extends_pod_def mtls_after_def Let_def)


definition env_of :: "Container \<Rightarrow> string \<Rightarrow> string option" where
  "env_of c k =
     (case find (\<lambda>e. ev_Name e = k) (c_Env c) of
        Some e \<Rightarrow> (case ev_Value e of Value s \<Rightarrow> Some s | FieldRef _ \<Rightarrow> None)
      | None \<Rightarrow> None)"

lemma itoa_zero: "itoa 0 = ''0''"
  by code_simp

lemma itoa_sint_eq: "itoa (sint (w :: 32 word)) = itoa (sint w') \<longleftrightarrow> w = w'"
  by (auto intro: signed_word_eqI)

text \<open>
  C35. The two containers that are injected agree with each other: the user ID that the init container
  exempts from redirection is the one the sidecar runs as, in debug mode too; outside of debug
  mode the sidecar runs without root, privileges and capabilities; the certificate mount, its
  volume and the environment switch go together; and the ports that traffic is redirected
  to are those the sidecar listens on exactly when \<open>PROXY_PORT\<close> and \<open>INBOUND_PORT\<close> have their
  default values.
\<close>

theorem injected_containers_agree:
  assumes "injectSidecar environ pod v = (p, v')"
  shows "\<exists>init side sc. pod_InitContainers p = pod_InitContainers pod @ [init] \<and> pod_Containers p = pod_Containers pod @ [side] \<and>
    c_SecurityContext side = Some sc \<and> env_of init ''PROXY_UID'' = Some (itoa (sint (sc_RunAsUser sc))) \<and>
    (\<not> DebugMode v \<longrightarrow> sc_RunAsNonRoot sc \<and> sc_AllowPrivilegeEscalation sc = Some False \<and> sc_Add sc = [] \<and> sc_Drop sc = [''ALL'']) \<and>
    (env_of side ''ANANSE_MTLS_ENABLED'' = Some ''true'' \<longleftrightarrow> (\<exists>m\<in>set (c_VolumeMounts side). vm_MountPath m = ''/etc/ananse/certs'')) \<and>
    (\<forall>m\<in>set (c_VolumeMounts side). \<exists>vol\<in>set (pod_Volumes p). vol_Name vol = vm_Name m) \<and>
    (env_of init ''PROXY_PORT'' = Some (itoa 15001) \<and> env_of init ''INBOUND_PORT'' = Some (itoa 15006) \<longleftrightarrow>
      ProxyPort v = 15001 \<and> InboundPort v = 15006) \<and>
    {15001, 15006} \<subseteq> cp_Port ` set (c_Ports side)"
proof -
  let ?v = "mtls_after pod v" and ?vol = "[\<lparr>vol_Name = ''ananse-mesh-certs'', vol_SecretName = ''ananse-mesh-certs''\<rparr>]"
  let ?init = "initContainer ?v" and ?side = "sidecarContainer environ ?v"
  have p: "extends_pod pod ?init ?side (if mtlsEnabled ?v = ''true'' then ?vol else []) p"
    using injectSidecar_extends [of pod v environ] assms by simp
  have same: "DebugMode ?v = DebugMode v" "ProxyPort ?v = ProxyPort v" "InboundPort ?v = InboundPort v"
    by (simp_all add: mtls_after_def)
  have port: "env_of ?init ''PROXY_PORT'' = Some (itoa (sint (ProxyPort v)))"
    "env_of ?init ''INBOUND_PORT'' = Some (itoa (sint (InboundPort v)))"
    using same by (simp_all add: env_of_def initContainer_def)
  have uid: "env_of ?init ''PROXY_UID'' = Some (itoa (sint (sc_RunAsUser (sidecar_security ?v))))"
    by (simp add: env_of_def initContainer_def sidecar_security_def itoa_zero)
  have mtls: "env_of ?side ''ANANSE_MTLS_ENABLED'' = Some (mtlsEnabled ?v)"
    by (simp add: env_of_def sidecarContainer_def sidecar_env_def)
  have "itoa (sint (ProxyPort v)) = itoa 15001 \<longleftrightarrow> ProxyPort v = 15001"
    "itoa (sint (InboundPort v)) = itoa 15006 \<longleftrightarrow> InboundPort v = 15006"
    using itoa_sint_eq [of "ProxyPort v" 15001] itoa_sint_eq [of "InboundPort v" 15006] by simp_all
  then show ?thesis
    using p port uid mtls same
    by (intro exI [of _ ?init] exI [of _ ?side] exI [of _ "sidecar_security ?v"])
       (simp add: extends_pod_def sidecarContainer_def sidecar_security_def)
qed

section \<open>Injections in sequence\<close>

text \<open>
  \<open>mtlsEnabled\<close> is a package variable: one annotated pod turns mTLS on for every pod injected
  after it.
\<close>

fun inject_all :: "(string \<rightharpoonup> string) \<Rightarrow> Pod list \<Rightarrow> injector \<Rightarrow> Pod list" where
  "inject_all environ [] v = []"
| "inject_all environ (pod # pods) v = (case injectSidecar environ pod v of (p, v') \<Rightarrow> p # inject_all environ pods v')"

lemma mtls_sticks:
  assumes "i < length pods" "mtlsEnabled v = ''false''"
  shows "env_of (last (pod_Containers (inject_all environ pods v ! i))) ''ANANSE_MTLS_ENABLED'' = Some ''true'' \<longleftrightarrow>
    (\<exists>j\<le>i. pod_Annotations (pods ! j) ''sidecar.ananse.io/mtls'' = Some ''true'')"
proof -
  have "env_of (last (pod_Containers (inject_all environ pods w ! i))) ''ANANSE_MTLS_ENABLED'' = Some ''true'' \<longleftrightarrow>
      mtlsEnabled w = ''true'' \<or> (\<exists>j\<le>i. pod_Annotations (pods ! j) ''sidecar.ananse.io/mtls'' = Some ''true'')"
    if "i < length pods" for w
    using that
  proof (induction pods arbitrary: i w)
    case (Cons pod pods)
    have on: "mtlsEnabled (mtls_after pod w) = ''true'' \<longleftrightarrow>
        mtlsEnabled w = ''true'' \<or> pod_Annotations pod ''sidecar.ananse.io/mtls'' = Some ''true''"
      by (simp add: mtls_after_def)
    have all: "inject_all environ (pod # pods) w = fst (injectSidecar environ pod w) # inject_all environ pods (mtls_after pod w)"
      using injectSidecar_extends [of pod w environ] by (simp add: split_beta)
    show ?case
    proof (cases i)
      case 0
      have "last (pod_Containers (fst (injectSidecar environ pod w))) = sidecarContainer environ (mtls_after pod w)"
        using injectSidecar_extends [of pod w environ] by (simp add: extends_pod_def)
      then show ?thesis using 0 on unfolding all by (simp add: env_of_def sidecarContainer_def sidecar_env_def)
    next
      case (Suc k)
      have "(\<exists>j\<le>Suc k. pod_Annotations ((pod # pods) ! j) ''sidecar.ananse.io/mtls'' = Some ''true'') \<longleftrightarrow>
          pod_Annotations pod ''sidecar.ananse.io/mtls'' = Some ''true'' \<or>
          (\<exists>j\<le>k. pod_Annotations (pods ! j) ''sidecar.ananse.io/mtls'' = Some ''true'')"
        by (simp add: less_Suc_eq_le [symmetric] Ex_less_Suc2)
      then show ?thesis using Suc Cons.IH [of k "mtls_after pod w"] Cons.prems on unfolding all by simp
    qed
  qed simp
  then show ?thesis using assms by simp
qed

section \<open>Probes through the sidecar\<close>

text \<open>The environment of a container: the last binding of a name wins, an unset name reads as empty.\<close>

definition getenv_of :: "EnvVar list \<Rightarrow> string \<Rightarrow> string" where
  "getenv_of envVars k =
     (case find (\<lambda>e. ev_Name e = k) (rev envVars) of
        Some e \<Rightarrow> (case ev_Value e of Value s \<Rightarrow> s | FieldRef _ \<Rightarrow> '''')
      | None \<Rightarrow> '''')"

definition http_probe :: "probe_kind \<Rightarrow> Container \<Rightarrow> HTTPGetAction option" where
  "http_probe k c = (case get_probe k c of None \<Rightarrow> None | Some p \<Rightarrow> pr_HTTPGet p)"

definition probe_path :: "HTTPGetAction \<Rightarrow> string" where
  "probe_path get = (if hg_Path get = '''' then ''/'' else hg_Path get)"

definition probe_env :: "probe_kind \<Rightarrow> Container \<Rightarrow> EnvVar list" where
  "probe_env k c =
     (case http_probe k c of
        None \<Rightarrow> []
      | Some get \<Rightarrow> [\<lparr>ev_Name = kind_env k @ ''_PORT'', ev_Value = Value (itoa (getProbePort (hg_Port get) c))\<rparr>,
                     \<lparr>ev_Name = kind_env k @ ''_PATH'', ev_Value = Value (probe_path get)\<rparr>])"

lemma get_set_probe: "get_probe k (set_probe k' p c) = (if k = k' then Some p else get_probe k c)"
  by (cases k; cases k') simp_all

lemma set_probe_frame: "c_Name (set_probe k p c) = c_Name c" "c_Ports (set_probe k p c) = c_Ports c"
  by (cases k; simp)+

lemma rewrite_probe_env:
  "snd (snd (rewrite_probe marshal k (c, ann, envs))) = envs @ probe_env k c"
  by (auto simp: rewrite_probe_def probe_env_def http_probe_def probe_path_def Let_def split: option.split)

lemma rewrite_probe_frame:
  "c_Name (fst (rewrite_probe marshal k (c, ann, envs))) = c_Name c"
  "c_Ports (fst (rewrite_probe marshal k (c, ann, envs))) = c_Ports c"
  "http_probe k' (fst (rewrite_probe marshal k (c, ann, envs))) =
     (if k' = k \<and> http_probe k c \<noteq> None
      then Some \<lparr>hg_Path = ''/app-health/'' @ c_Name c @ ''/'' @ kind_endpoint k, hg_Port = IntVal 15021\<rparr> else http_probe k' c)"
  by (auto simp: rewrite_probe_def http_probe_def Let_def set_probe_frame get_set_probe split: option.splits)

lemma probe_env_cong:
  "http_probe k c' = http_probe k c \<Longrightarrow> c_Ports c' = c_Ports c \<Longrightarrow> probe_env k c' = probe_env k c"
  by (simp add: probe_env_def getProbePort_def split: option.split IntOrString.split)

text \<open>The three rewritings of one container do not interfere.\<close>

lemma rewrite_three:
  assumes "fold (rewrite_probe marshal) [Liveness, Readiness, Startup] (c, ann, envs) = (c', ann', envs')"
  shows "envs' = envs @ probe_env Liveness c @ probe_env Readiness c @ probe_env Startup c"
    "http_probe k c \<noteq> None \<Longrightarrow>
       http_probe k c' = Some \<lparr>hg_Path = ''/app-health/'' @ c_Name c @ ''/'' @ kind_endpoint k, hg_Port = IntVal 15021\<rparr>"
proof -
  obtain c1 a1 e1 where 1: "rewrite_probe marshal Liveness (c, ann, envs) = (c1, a1, e1)" by (metis prod_cases3)
  obtain c2 a2 e2 where 2: "rewrite_probe marshal Readiness (c1, a1, e1) = (c2, a2, e2)" by (metis prod_cases3)
  have 3: "rewrite_probe marshal Startup (c2, a2, e2) = (c', ann', envs')" using assms 1 2 by simp
  note f1 = rewrite_probe_frame [where marshal = marshal and k = Liveness and c = c and ann = ann and envs = envs, unfolded 1 fst_conv]
  note f2 = rewrite_probe_frame [where marshal = marshal and k = Readiness and c = c1 and ann = a1 and envs = e1, unfolded 2 fst_conv]
  note f3 = rewrite_probe_frame [where marshal = marshal and k = Startup and c = c2 and ann = a2 and envs = e2, unfolded 3 fst_conv]
  note e = rewrite_probe_env [of marshal Liveness c ann envs, unfolded 1 snd_conv]
    rewrite_probe_env [of marshal Readiness c1 a1 e1, unfolded 2 snd_conv]
    rewrite_probe_env [of marshal Startup c2 a2 e2, unfolded 3 snd_conv]
  have "probe_env Readiness c1 = probe_env Readiness c" "probe_env Startup c2 = probe_env Startup c"
    by (rule probe_env_cong; simp add: f1 f2)+
  then show "envs' = envs @ probe_env Liveness c @ probe_env Readiness c @ probe_env Startup c" using e by simp
  show "http_probe k c \<noteq> None \<Longrightarrow>
      http_probe k c' = Some \<lparr>hg_Path = ''/app-health/'' @ c_Name c @ ''/'' @ kind_endpoint k, hg_Port = IntVal 15021\<rparr>"
    using f1 f2 f3 by (cases k) simp_all
qed

lemma kind_upper:
  "ToUpper ''liveness'' = ''LIVENESS''" "ToUpper ''readiness'' = ''READINESS''" "ToUpper ''startup'' = ''STARTUP''"
  by code_simp+

lemma getenv_probe_env:
  assumes "http_probe k c = Some get" "envs = probe_env Liveness c @ probe_env Readiness c @ probe_env Startup c"
  shows "getenv_of envs (kind_env k @ ''_PORT'') = itoa (getProbePort (hg_Port get) c)"
    "getenv_of envs (kind_env k @ ''_PATH'') = probe_path get"
  using assms by (cases k; auto simp: getenv_of_def probe_env_def split: option.split)+


section \<open>Witnesses\<close>

definition example_container :: Container where
  "example_container =
     \<lparr>c_Name = ''users'', c_Image = ''users:1'', c_ImagePullPolicy = ''Always'', c_Ports = [\<lparr>cp_Name = ''http'', cp_Port = 80\<rparr>],
      c_Env = [], c_SecurityContext = None, c_Requests = [], c_Limits = [], c_VolumeMounts = [],
      c_LivenessProbe = Some \<lparr>pr_HTTPGet = Some \<lparr>hg_Path = ''/up'', hg_Port = StrVal ''http''\<rparr>,
        pr_InitialDelaySeconds = 1, pr_PeriodSeconds = 5\<rparr>,
      c_ReadinessProbe = None, c_StartupProbe = None\<rparr>"

definition example_pod :: Pod where
  "example_pod =
     \<lparr>pod_Annotations = [''sidecar.ananse.io/mtls'' \<mapsto> ''true''], pod_Labels = [''app'' \<mapsto> ''users''], pod_HostNetwork = False,
      pod_InitContainers = [], pod_Containers = [example_container], pod_Volumes = []\<rparr>"

definition example_lib :: json_lib where
  "example_lib =
     \<lparr>jl_decodePod = (\<lambda>_. Inr example_pod), jl_marshalPod = (\<lambda>_. Inr ''new''), jl_CreatePatch = (\<lambda>a b. Inr (a @ b))\<rparr>"


theorem injected_containers_agree_witness:
  "\<exists>init. pod_InitContainers (fst (injectSidecar Map.empty example_pod (init_vars Map.empty))) = [init] \<and>
     env_of init ''PROXY_PORT'' = Some (itoa 15001)"
proof -
  have "ProxyPort (init_vars Map.empty) = 15001 \<and> InboundPort (init_vars Map.empty) = 15006"
    by (simp add: init_vars_def getEnvInt_def)
  moreover have "pod_InitContainers example_pod = []" by (simp add: example_pod_def)
  ultimately show ?thesis
    using injected_containers_agree [OF prod.collapse [symmetric], of Map.empty example_pod "init_vars Map.empty"] by auto
qed


end
