(* ===== verification/Tracing.thy ===== *)
theory Tracing
  imports Go_Prelude
begin

text \<open>
  \<open>pkg/proxy/tracer.go\<close>: the exporter that drops the spans of successful health checks, and the
  decisions of \<open>InitTracer\<close>. Spans and the wrapped exporter belong to the OpenTelemetry SDK: a
  span is what the filter reads of it, the wrapped exporter a parameter. The fixed sampler,
  propagator and error handler that \<open>InitTracer\<close> installs are the SDK's.
\<close>

section \<open>The span filter\<close>

datatype span_code = StatusUnset | StatusError | StatusOk

record ReadOnlySpan =
  sp_Attributes :: "(string \<times> string) list"
  sp_Status :: span_code

fun health_attr :: "(string \<times> string) list \<Rightarrow> bool" where
  "health_attr [] = False"
| "health_attr ((key, v) # attrs) = (if key = ''http.url'' then Contains v ''/health'' else health_attr attrs)"

definition isHealthSpan :: "ReadOnlySpan \<Rightarrow> bool" where
  "isHealthSpan s = health_attr (sp_Attributes s)"

fun keep_spans :: "ReadOnlySpan list \<Rightarrow> ReadOnlySpan list \<Rightarrow> ReadOnlySpan list" where
  "keep_spans [] kept = kept"
| "keep_spans (s # spans) kept =
     (if isHealthSpan s \<and> sp_Status s \<noteq> StatusError then keep_spans spans kept else keep_spans spans (kept @ [s]))"

text \<open>The result is the error, if any, and the batches given to the wrapped exporter.\<close>

definition ExportSpans :: "(ReadOnlySpan list \<Rightarrow> 'e option) \<Rightarrow> ReadOnlySpan list \<Rightarrow> 'e option \<times> ReadOnlySpan list list" where
  "ExportSpans wrapped spans =
     (let kept = keep_spans spans []
      in if length kept = 0 then (None, []) else (wrapped kept, [kept]))"

section \<open>Set-up\<close>

definition getServiceName :: "(string \<Rightarrow> string) \<Rightarrow> string" where
  "getServiceName getenv =
     (if getenv ''SERVICE_NAME'' \<noteq> '''' then getenv ''SERVICE_NAME''
      else if getenv ''OTEL_SERVICE_NAME'' \<noteq> '''' then getenv ''OTEL_SERVICE_NAME''
      else '''')"

record tracer =
  tr_service :: string
  tr_collector :: string
  tr_filtered :: bool

datatype tracer_result = TracingOff | TracerFatal | TracerOn tracer

definition InitTracer :: "(string \<Rightarrow> string) \<Rightarrow> (string \<Rightarrow> bool) \<Rightarrow> tracer_result" where
  "InitTracer getenv new_exporter =
     (if getenv ''ANANSE_TRACING_ENABLED'' = ''false'' then TracingOff
      else let serviceName = (if getServiceName getenv = '''' then ''ananse-proxy'' else getServiceName getenv);
               collectorURL = (if getenv ''OTEL_EXPORTER_OTLP_ENDPOINT'' = '''' then ''localhost:4317''
                               else getenv ''OTEL_EXPORTER_OTLP_ENDPOINT'')
           in if \<not> new_exporter collectorURL then TracerFatal
              else TracerOn \<lparr>tr_service = serviceName, tr_collector = collectorURL,
                             tr_filtered = (getenv ''FILTER_HEALTH_CHECKS'' = ''true'')\<rparr>)"

section \<open>What is exported\<close>

lemma keep_spans_eq:
  "keep_spans spans kept = kept @ filter (\<lambda>s. \<not> (isHealthSpan s \<and> sp_Status s \<noteq> StatusError)) spans"
  by (induction spans arbitrary: kept) simp_all

lemma health_attr_map_of:
  "health_attr attrs \<longleftrightarrow> (\<exists>v. map_of attrs ''http.url'' = Some v \<and> Contains v ''/health'')"
  by (induction attrs rule: health_attr.induct) auto

text \<open>
  What reaches the collector: the batches concatenated are the given spans, in order, less the
  ones whose first \<open>http.url\<close> contains \<open>/health\<close> and whose status is not an error; an empty batch
  is never sent, and an error of the collector is passed on.
\<close>

theorem ExportSpans_correct:
  "concat (snd (ExportSpans wrapped spans)) =
     filter (\<lambda>s. sp_Status s = StatusError \<or>
       \<not> (\<exists>v. map_of (sp_Attributes s) ''http.url'' = Some v \<and> Contains v ''/health'')) spans \<and>
   [] \<notin> set (snd (ExportSpans wrapped spans)) \<and>
   fst (ExportSpans wrapped spans) =
     (case snd (ExportSpans wrapped spans) of [] \<Rightarrow> None | batch # _ \<Rightarrow> wrapped batch)"
  by (simp add: ExportSpans_def Let_def keep_spans_eq isHealthSpan_def health_attr_map_of disj_commute)

text \<open>The filter looks for a substring, so successful requests of other paths are dropped too.\<close>

lemma ordinary_request_dropped:
  "snd (ExportSpans wrapped [\<lparr>sp_Attributes = [(''http.url'', ''/api/healthcare/claims'')], sp_Status = StatusOk\<rparr>]) = []"
proof -
  have "Contains ''/api/healthcare/claims'' ''/health''" by code_simp
  then show ?thesis by (simp add: ExportSpans_def isHealthSpan_def)
qed

end
