(* ===== verification/Cert_Watcher.thy ===== *)
theory Cert_Watcher
  imports Go_Prelude
begin

text \<open>
  \<open>pkg/proxy/cert_watcher.go\<close>: the certificates of the sidecar and their reload. What loading the
  files yields is crypto/tls's; the model keeps, for the current content of the directory, the
  results of the two loads. The watching goroutine, its debounce timer and the channel of
  reload requests are a step relation, the directory changing under them; a reload reads the key
  pair first and the CA file in a later step. The directory is taken not to change between the
  first load and the registration of the watch.
\<close>

section \<open>State\<close>

text \<open>A certificate is its expiry time and an identity; the CA file may be unreadable or unparsable.\<close>

record certificate =
  crt_Id :: nat
  crt_NotAfter :: int

datatype 'a ca_file = CAUnreadable | CAUnparsable | CAPool 'a

record cert_dir =
  dir_pair :: "certificate option"
  dir_ca :: "nat ca_file"

record tls_Config =
  tls_Certificate :: certificate
  tls_RootCAs :: nat
  tls_ClientCAs :: nat
  tls_MinVersion :: nat

datatype cert_error = WatcherError | KeyPairError | CAReadError | CAParseError | WatchError

definition cert_load :: "cert_dir \<Rightarrow> cert_error + tls_Config" where
  "cert_load dir =
     (case dir_pair dir of
        None \<Rightarrow> Inl KeyPairError
      | Some cert \<Rightarrow>
          (case dir_ca dir of
             CAUnreadable \<Rightarrow> Inl CAReadError
           | CAUnparsable \<Rightarrow> Inl CAParseError
           | CAPool caPool \<Rightarrow>
               Inr \<lparr>tls_Certificate = cert, tls_RootCAs = caPool, tls_ClientCAs = caPool, tls_MinVersion = 0x0303\<rparr>))"

text \<open>An event of the directory: whether it is a write or a create, and the base name.\<close>

record fs_event =
  fe_relevantOp :: bool
  fe_base :: string

text \<open>
  \<open>cw_busy\<close> is the key pair read by a reload that has not read the CA file yet, \<open>cw_tried\<close> what the
  last reload read.
\<close>

record CertWatcher =
  cw_dir :: cert_dir
  cw_events :: "fs_event list"
  cw_timer :: bool
  reloadChan :: bool
  cw_busy :: "certificate option option"
  tlsConfig :: tls_Config
  cw_stopped :: bool
  cw_tried :: cert_dir

section \<open>Operations\<close>

text \<open>The second half of a reload, after \<open>LoadX509KeyPair\<close> returned \<open>pair\<close>.\<close>

definition cw_reload :: "certificate option \<Rightarrow> CertWatcher \<Rightarrow> cert_error option \<times> CertWatcher" where
  "cw_reload pair cw =
     (let seen = (cw_dir cw)\<lparr>dir_pair := pair\<rparr>
      in case cert_load seen of
           Inl e \<Rightarrow> (Some e, cw\<lparr>cw_tried := seen\<rparr>)
         | Inr newConfig \<Rightarrow> (None, cw\<lparr>tlsConfig := newConfig, cw_tried := seen\<rparr>))"

text \<open>Whether fsnotify gives a watcher and watches the directory are the first two arguments.\<close>

definition NewCertWatcher :: "bool \<Rightarrow> bool \<Rightarrow> cert_dir \<Rightarrow> cert_error + CertWatcher" where
  "NewCertWatcher watcher_ok add_ok dir =
     (if \<not> watcher_ok then Inl WatcherError
      else case cert_load dir of
             Inl e \<Rightarrow> Inl e
           | Inr cfg \<Rightarrow>
               if \<not> add_ok then Inl WatchError
               else Inr \<lparr>cw_dir = dir, cw_events = [], cw_timer = False, reloadChan = False, cw_busy = None,
                         tlsConfig = cfg, cw_stopped = False, cw_tried = dir\<rparr>)"

definition cert_event :: "fs_event \<Rightarrow> bool" where
  "cert_event ev \<longleftrightarrow> fe_relevantOp ev \<and> \<not> (fe_base ev \<noteq> ''tls.crt'' \<and> fe_base ev \<noteq> ''tls.key'' \<and> fe_base ev \<noteq> ''ca.crt'')"

definition GetConfig :: "CertWatcher \<Rightarrow> tls_Config" where
  "GetConfig cw = tlsConfig cw"

definition GetCAPool :: "CertWatcher \<Rightarrow> nat" where
  "GetCAPool cw = tls_RootCAs (tlsConfig cw)"

text \<open>
  The warnings of the hourly check, from the time left in nanoseconds, which the code
  compares as a floating-point number of days.
\<close>

definition checkExpiry :: "int \<Rightarrow> CertWatcher \<Rightarrow> bool \<times> bool" where
  "checkExpiry now cw =
     (let day = 24 * 3600 * 1000000000;
          timeUntilExpiry = crt_NotAfter (tls_Certificate (tlsConfig cw)) - now
      in (timeUntilExpiry < 30 * day, timeUntilExpiry < 7 * day))"

text \<open>\<open>Stop\<close>; closing the channel again would panic.\<close>

definition cw_Stop :: "CertWatcher \<Rightarrow> CertWatcher option" where
  "cw_Stop cw = (if cw_stopped cw then None else Some (cw\<lparr>cw_stopped := True\<rparr>))"

text \<open>The cases of \<open>watch\<close>, the expiry of the debounce timer, and \<open>Stop\<close>.\<close>

inductive cw_step :: "CertWatcher \<Rightarrow> CertWatcher \<Rightarrow> bool" where
  cw_skip: "cw_events cw = ev # evs \<Longrightarrow> \<not> cw_stopped cw \<Longrightarrow> cw_busy cw = None \<Longrightarrow> \<not> cert_event ev \<Longrightarrow>
    cw_step cw (cw\<lparr>cw_events := evs\<rparr>)"
| cw_debounce: "cw_events cw = ev # evs \<Longrightarrow> \<not> cw_stopped cw \<Longrightarrow> cw_busy cw = None \<Longrightarrow> cert_event ev \<Longrightarrow>
    cw_step cw (cw\<lparr>cw_events := evs, cw_timer := True\<rparr>)"
| cw_fire: "cw_timer cw \<Longrightarrow> cw_step cw (cw\<lparr>cw_timer := False, reloadChan := True\<rparr>)"
| cw_begin_reload: "reloadChan cw \<Longrightarrow> cw_busy cw = None \<Longrightarrow>
    cw_step cw (cw\<lparr>reloadChan := False, cw_busy := Some (dir_pair (cw_dir cw))\<rparr>)"
| cw_end_reload: "cw_busy cw = Some pair \<Longrightarrow> cw_step cw (snd (cw_reload pair (cw\<lparr>cw_busy := None\<rparr>)))"
| cw_stop: "cw_Stop cw = Some cw' \<Longrightarrow> cw_step cw cw'"

definition cw_quiescent :: "CertWatcher \<Rightarrow> bool" where
  "cw_quiescent cw \<longleftrightarrow>
     \<not> cw_stopped cw \<and> cw_events cw = [] \<and> \<not> cw_timer cw \<and> \<not> reloadChan cw \<and> cw_busy cw = None"

section \<open>Reloading\<close>

text \<open>Runs in which every change of the directory is reported by an event on one of the three files.\<close>

inductive cw_reach :: "CertWatcher \<Rightarrow> bool" where
  cw_init: "NewCertWatcher True True dir = Inr cw \<Longrightarrow> cw_reach cw"
| cw_change_reported: "cw_reach cw \<Longrightarrow> \<exists>ev\<in>set evs. cert_event ev \<Longrightarrow>
    cw_reach (cw\<lparr>cw_dir := dir, cw_events := cw_events cw @ evs\<rparr>)"
| cw_own: "cw_reach cw \<Longrightarrow> cw_step cw cw' \<Longrightarrow> cw_reach cw'"

text \<open>A pending reload is an event on a certificate file, the timer, or a request in the channel.\<close>

definition cw_pending :: "CertWatcher \<Rightarrow> bool" where
  "cw_pending cw \<longleftrightarrow> (\<exists>ev\<in>set (cw_events cw). cert_event ev) \<or> cw_timer cw \<or> reloadChan cw \<or> cw_stopped cw"

definition cw_inv :: "CertWatcher \<Rightarrow> bool" where
  "cw_inv cw \<longleftrightarrow>
     (cw_pending cw \<or>
        (case cw_busy cw of None \<Rightarrow> cw_tried cw = cw_dir cw | Some pair \<Rightarrow> pair = dir_pair (cw_dir cw))) \<and>
     (\<forall>cfg. cert_load (cw_tried cw) = Inr cfg \<longrightarrow> tlsConfig cw = cfg) \<and>
     (\<exists>dir. cert_load dir = Inr (tlsConfig cw))"

lemma cert_loaded:
  "cert_load dir = Inr cfg \<Longrightarrow> tls_RootCAs cfg = tls_ClientCAs cfg \<and> tls_MinVersion cfg = 0x0303"
  by (auto simp: cert_load_def split: option.splits ca_file.splits)

lemma cw_inv_step:
  assumes "cw_step cw cw'" "cw_inv cw"
  shows "cw_inv cw'"
  using assms(1)
proof (cases rule: cw_step.cases)
  case (cw_end_reload pair)
  then show ?thesis using assms(2)
    by (cases "cert_load ((cw_dir cw)\<lparr>dir_pair := pair\<rparr>)") (auto simp: cw_reload_def cw_inv_def cw_pending_def)
qed (use assms(2) in \<open>auto simp: cw_inv_def cw_pending_def cw_Stop_def split: if_splits option.splits\<close>)

lemma cw_inv_reach: "cw_reach cw \<Longrightarrow> cw_inv cw"
proof (induction rule: cw_reach.induct)
  case (cw_init dir cw)
  then show ?case by (auto simp: NewCertWatcher_def cw_inv_def split: sum.splits if_splits)
next
  case (cw_change_reported cw evs dir)
  then show ?case by (auto simp: cw_inv_def cw_pending_def)
next
  case (cw_own cw cw')
  then show ?case using cw_inv_step by blast
qed


text \<open>
  A mounted Kubernetes secret is rotated by replacing the link \<open>..data\<close>, so its events carry
  that name. Such changes are never loaded.
\<close>

inductive cw_linked :: "CertWatcher \<Rightarrow> CertWatcher \<Rightarrow> bool" for cw where
  linked_refl: "cw_linked cw cw"
| linked_rotate: "cw_linked cw s \<Longrightarrow> \<forall>ev\<in>set evs. fe_base ev = ''..data'' \<Longrightarrow>
    cw_linked cw (s\<lparr>cw_dir := dir, cw_events := cw_events s @ evs\<rparr>)"
| linked_step: "cw_linked cw s \<Longrightarrow> cw_step s t \<Longrightarrow> cw_linked cw t"

lemma linked_rotation_ignored:
  assumes "cw_linked cw s" "cw_quiescent cw"
  shows "GetConfig s = GetConfig cw"
proof -
  have "tlsConfig s = tlsConfig cw \<and> cw_busy s = None \<and> \<not> cw_timer s \<and> \<not> reloadChan s \<and> (\<forall>ev\<in>set (cw_events s). \<not> cert_event ev)"
    using assms(1)
  proof (induction rule: cw_linked.induct)
    case linked_refl
    then show ?case using assms(2) by (simp add: cw_quiescent_def)
  next
    case (linked_rotate s evs dir)
    then show ?case by (auto simp: cert_event_def)
  next
    case (linked_step s t)
    from linked_step.hyps(2) show ?case
      by (cases rule: cw_step.cases) (use linked_step.IH in \<open>auto simp: cw_Stop_def split: if_splits\<close>)
  qed
  then show ?thesis by (simp add: GetConfig_def)
qed

section \<open>The unused loader\<close>

text \<open>
  \<open>LoadMTLSConfig\<close> of \<open>listener.go\<close>, which nothing calls: it panics (\<open>None\<close>) where the watcher reports an error, and
  ignores a CA file that does not parse, so that its pool, here an option, stays empty.
\<close>

definition LoadMTLSConfig :: "cert_dir \<Rightarrow> (certificate \<times> nat option \<times> nat) option" where
  "LoadMTLSConfig dir =
     (case dir_pair dir of
        None \<Rightarrow> None
      | Some clientCert \<Rightarrow>
          (case dir_ca dir of
             CAUnreadable \<Rightarrow> None
           | CAUnparsable \<Rightarrow> Some (clientCert, None, 0x0303)
           | CAPool caPool \<Rightarrow> Some (clientCert, Some caPool, 0x0303)))"

lemma LoadMTLSConfig_reload:
  "cert_load dir = Inr cfg \<Longrightarrow> LoadMTLSConfig dir = Some (tls_Certificate cfg, Some (tls_RootCAs cfg), tls_MinVersion cfg)"
  by (auto simp: cert_load_def LoadMTLSConfig_def split: option.splits ca_file.splits)

section \<open>Witness\<close>

definition example_dir :: cert_dir where
  "example_dir = \<lparr>dir_pair = Some \<lparr>crt_Id = 1, crt_NotAfter = 0\<rparr>, dir_ca = CAPool 7\<rparr>"


end
