(* ===== verification/Proxy_Main.thy ===== *)
theory Proxy_Main
  imports Data_Plane Sidecar_Net Cert_Watcher
begin

text \<open>
  \<open>proxy/main.go\<close>, \<open>pkg/proxy/gateway.go\<close> and \<open>StartSidecarProxy\<close> of \<open>pkg/proxy/listener.go\<close>: a proxy
  process from its start on. It waits for the first configuration, then copies the pointers to
  router, load balancer, pool and health checker out of its state, once, into the gateway's
  handler or the sidecar. In the state these pointers are set by the first configuration that
  is applied and never replaced (the router from the beginning), so a copied pointer is nil or
  the one of the state: the copy is a record of flags. The environment is the function \<open>getenv\<close>.
\<close>

section \<open>The process\<close>

record captured =
  c_Router :: bool
  c_LoadBalancer :: bool
  c_BackendPool :: bool
  c_Health :: bool

definition capture :: "ProxyState \<Rightarrow> captured" where
  "capture ps =
     \<lparr>c_Router = (ps_Router ps \<noteq> None), c_LoadBalancer = (ps_LoadBalancer ps \<noteq> None),
      c_BackendPool = BackendPool ps, c_Health = (ps_Health ps \<noteq> None)\<rparr>"

record sidecar =
  sc_captured :: captured
  sc_probes :: "string \<rightharpoonup> appHealthProbeConfig"
  certWatcher :: "CertWatcher option"
  sidecarReady :: bool

record gateway =
  gw_handler :: captured
  gw_port :: int

datatype phase =
    Starting
  | FatalExit
  | Crashed
  | Stopped
  | RunningSidecar sidecar
  | RunningGateway gateway

text \<open>\<open>watch_dir\<close> is what \<open>NewCertWatcher\<close> returns for a directory.\<close>

definition StartSidecarProxy ::
  "(string \<Rightarrow> string) \<Rightarrow> (string \<Rightarrow> cert_error + CertWatcher) \<Rightarrow> ProxyState \<Rightarrow> phase" where
  "StartSidecarProxy getenv watch_dir ps =
     (let sc = \<lparr>sc_captured = capture ps, sc_probes = initProbeConfigs getenv Map.empty,
               certWatcher = None, sidecarReady = False\<rparr>
      in if getenv ''ANANSE_MTLS_ENABLED'' = ''true''
         then let certDir = (if getenv ''ANANSE_CERT_PATH'' = '''' then ''/etc/ananse/certs'' else getenv ''ANANSE_CERT_PATH'')
              in (case watch_dir certDir of
                    Inl e \<Rightarrow> FatalExit
                  | Inr cw \<Rightarrow> RunningSidecar (sc\<lparr>certWatcher := Some cw, sidecarReady := True\<rparr>))
         else RunningSidecar (sc\<lparr>sidecarReady := True\<rparr>))"

text \<open>The panic of \<open>GetPort\<close> on a configuration without \<open>ProxyConfig\<close> would end the process.\<close>

definition StartGateway :: "ProxyState \<Rightarrow> phase" where
  "StartGateway ps =
     (case GetPort ps of None \<Rightarrow> Crashed | Some port \<Rightarrow> RunningGateway \<lparr>gw_handler = capture ps, gw_port = port\<rparr>)"

definition start_mode ::
  "(string \<Rightarrow> string) \<Rightarrow> (string \<Rightarrow> cert_error + CertWatcher) \<Rightarrow> ProxyState \<Rightarrow> phase" where
  "start_mode getenv watch_dir ps =
     (let mode = (if getenv ''ANANSE_MODE'' = '''' then ''gateway'' else getenv ''ANANSE_MODE'')
      in if mode = ''sidecar'' then StartSidecarProxy getenv watch_dir ps else StartGateway ps)"

record proxy_main =
  pm_state :: ProxyState
  firstConfigReady :: bool
  pm_phase :: phase
  pm_received :: "pb_Config list"

definition main_init :: proxy_main where
  "main_init = \<lparr>pm_state = NewProxyState, firstConfigReady = False, pm_phase = Starting, pm_received = []\<rparr>"

definition alive :: "proxy_main \<Rightarrow> bool" where
  "alive m = (case pm_phase m of FatalExit \<Rightarrow> False | Crashed \<Rightarrow> False | Stopped \<Rightarrow> False | _ \<Rightarrow> True)"

text \<open>The callback \<open>onConfig\<close>; a panic in it ends the process.\<close>

definition onConfig ::
  "(string \<Rightarrow> URL option) \<Rightarrow> string list \<Rightarrow> string list \<Rightarrow> string list \<Rightarrow> string list \<Rightarrow> pb_Config \<Rightarrow> proxy_main \<Rightarrow> proxy_main" where
  "onConfig parse o1 o2 o3 o4 cfg m =
     (let (res, ps) = HandleConfig parse o1 o2 o3 o4 (Some cfg) (pm_state m);
          m1 = m\<lparr>pm_state := ps, pm_received := pm_received m @ [cfg]\<rparr>
      in if res = Panicked then m1\<lparr>pm_phase := Crashed\<rparr> else m1\<lparr>firstConfigReady := True\<rparr>)"

section \<open>Requests\<close>

text \<open>
  The routes of the gateway on the cleaned path of a request, and what the handler makes of a
  request up to the call of the load balancer: \<open>lb.Strategy\<close> is read through the pointer. In the
  gateway net/http recovers the panic and drops the connection; in the sidecar nothing does.
\<close>

datatype 'a mux_target = MetricsHandler | HealthOk | ProxyHandlerAt 'a

definition gateway_mux :: "string \<Rightarrow> string mux_target" where
  "gateway_mux path =
     (if path = ''/metrics'' then MetricsHandler
      else if path = ''/health'' then HealthOk
      else ProxyHandlerAt path)"

datatype admitted = NoRoute lookup_error | NilBalancer | Balance string

definition gateway_admit :: "captured \<Rightarrow> Router \<Rightarrow> string \<Rightarrow> string \<Rightarrow> admitted" where
  "gateway_admit c R path meth =
     (case FindService R path meth of
        Inl e \<Rightarrow> NoRoute e
      | Inr serviceName \<Rightarrow> if c_LoadBalancer c then Balance serviceName else NilBalancer)"

definition sidecar_admit :: "captured \<Rightarrow> Router \<Rightarrow> string \<Rightarrow> admitted" where
  "sidecar_admit c R target =
     (case FindServiceByVIP R target of
        Inl e \<Rightarrow> NoRoute e
      | Inr serviceName \<Rightarrow> if c_LoadBalancer c then Balance serviceName else NilBalancer)"

section \<open>Runs\<close>

text \<open>
  Configurations arrive at any time, the requests and health checks work on the store in
  between, and the main goroutine proceeds on the first configuration, the timeout or a
  signal. An outbound connection of a sidecar that finds a service and no balancer crashes it.
\<close>

inductive main_reach ::
  "(string \<Rightarrow> URL option) \<Rightarrow> (string \<Rightarrow> string) \<Rightarrow> (string \<Rightarrow> cert_error + CertWatcher) \<Rightarrow> proxy_main \<Rightarrow> bool"
  for parse getenv watch_dir where
  main_start: "main_reach parse getenv watch_dir main_init"
| main_config: "main_reach parse getenv watch_dir m \<Longrightarrow> alive m \<Longrightarrow> range_order (table_of c) o2 \<Longrightarrow>
    main_reach parse getenv watch_dir (onConfig parse o1 o2 o3 o4 c m)"
| main_pool: "main_reach parse getenv watch_dir m \<Longrightarrow> alive m \<Longrightarrow> pool_step (store (pm_state m), fl) (q, fl') \<Longrightarrow>
    main_reach parse getenv watch_dir (m\<lparr>pm_state := (pm_state m)\<lparr>store := q\<rparr>\<rparr>)"
| main_ready: "main_reach parse getenv watch_dir m \<Longrightarrow> pm_phase m = Starting \<Longrightarrow> firstConfigReady m \<Longrightarrow>
    main_reach parse getenv watch_dir (m\<lparr>pm_phase := start_mode getenv watch_dir (pm_state m)\<rparr>)"
| main_timeout: "main_reach parse getenv watch_dir m \<Longrightarrow> pm_phase m = Starting \<Longrightarrow>
    main_reach parse getenv watch_dir (m\<lparr>pm_phase := FatalExit\<rparr>)"
| main_signal: "main_reach parse getenv watch_dir m \<Longrightarrow> alive m \<Longrightarrow>
    main_reach parse getenv watch_dir (m\<lparr>pm_phase := Stopped\<rparr>)"
| main_outbound: "main_reach parse getenv watch_dir m \<Longrightarrow> pm_phase m = RunningSidecar sc \<Longrightarrow>
    ps_Router (pm_state m) = Some R \<Longrightarrow> sidecar_admit (sc_captured sc) R target = NilBalancer \<Longrightarrow>
    main_reach parse getenv watch_dir (m\<lparr>pm_phase := Crashed\<rparr>)"

definition captured_of :: "phase \<Rightarrow> captured option" where
  "captured_of p =
     (case p of RunningSidecar sc \<Rightarrow> Some (sc_captured sc) | RunningGateway g \<Rightarrow> Some (gw_handler g) | _ \<Rightarrow> None)"

section \<open>The components of a running proxy\<close>

text \<open>
  The three components exist together, exactly since an acceptable configuration arrived; what
  was applied has a \<open>ProxyConfig\<close>.
\<close>

definition components_inv :: "(string \<Rightarrow> URL option) \<Rightarrow> ProxyState \<Rightarrow> pb_Config list \<Rightarrow> bool" where
  "components_inv parse ps cfgs \<longleftrightarrow>
     (let ex = (\<exists>c\<in>set cfgs. acceptable parse c)
      in capture ps = \<lparr>c_Router = True, c_LoadBalancer = ex, c_BackendPool = ex, c_Health = ex\<rparr>) \<and>
     (\<forall>c. LastAppliedConfig ps = Some c \<longrightarrow> cfg_ProxyConfig c \<noteq> None)"

definition main_inv :: "(string \<Rightarrow> URL option) \<Rightarrow> proxy_main \<Rightarrow> bool" where
  "main_inv parse m \<longleftrightarrow>
     (alive m \<longrightarrow> components_inv parse (pm_state m) (pm_received m)) \<and>
     (alive m \<longrightarrow> (firstConfigReady m \<longleftrightarrow> pm_received m \<noteq> [])) \<and>
     (\<forall>cap. captured_of (pm_phase m) = Some cap \<longrightarrow>
        pm_received m \<noteq> [] \<and> (acceptable parse (hd (pm_received m)) \<longrightarrow> c_LoadBalancer cap)) \<and>
     (pm_phase m = Crashed \<longrightarrow> pm_received m \<noteq> [] \<and>
        ((\<exists>c\<in>set (pm_received m). acceptable parse c \<and> cfg_ProxyConfig c = None) \<or>
         \<not> acceptable parse (hd (pm_received m))))"

lemma components_inv_new: "components_inv parse NewProxyState []"
  by (simp add: components_inv_def capture_def NewProxyState_def)

lemma components_inv_store: "components_inv parse (ps\<lparr>store := q\<rparr>) cfgs = components_inv parse ps cfgs"
  by (simp add: components_inv_def capture_def)

lemma components_inv_config:
  assumes "components_inv parse ps cfgs" "range_order (table_of c) o2"
    "HandleConfig parse o1 o2 o3 o4 (Some c) ps = (res, ps')" "res \<noteq> Panicked"
  shows "components_inv parse ps' (cfgs @ [c])"
  using assms(3,2)
proof (cases rule: HandleConfig_cases [consumes 2])
  case rejected
  have "components_inv parse (ps\<lparr>store := store ps'\<rparr>) (cfgs @ [c])"
    using assms(1) rejected(2) by (simp add: components_inv_def capture_def)
  then show ?thesis using rejected(4) by simp
next
  case (accepted m st R)
  obtain pc where pc: "cfg_ProxyConfig c = Some pc" using accepted(10) assms(4) by (auto split: option.splits)
  then show ?thesis
    using accepted update_health_Some by (auto simp: components_inv_def capture_def)
qed

lemma HandleConfig_Panicked:
  assumes "HandleConfig parse o1 o2 o3 o4 (Some c) ps = (Panicked, ps')" "range_order (table_of c) o2"
  shows "acceptable parse c \<and> cfg_ProxyConfig c = None"
  using assms
proof (cases rule: HandleConfig_cases [consumes 2])
  case (accepted m st R)
  then show ?thesis by (cases "cfg_ProxyConfig c") auto
qed simp

lemma main_inv_config:
  assumes "main_inv parse m" "alive m" "range_order (table_of c) o2"
  shows "main_inv parse (onConfig parse o1 o2 o3 o4 c m)"
proof -
  obtain res ps' where h: "HandleConfig parse o1 o2 o3 o4 (Some c) (pm_state m) = (res, ps')" by fastforce
  have hd: "hd (pm_received m @ [c]) = hd (pm_received m)" if "pm_received m \<noteq> []" using that by simp
  show ?thesis
  proof (cases "res = Panicked")
    case True
    then show ?thesis using HandleConfig_Panicked [of parse o1 o2 o3 o4 c] h assms(3)
      by (auto simp: onConfig_def main_inv_def alive_def captured_of_def)
  next
    case False
    have "components_inv parse ps' (pm_received m @ [c])"
      using components_inv_config [OF _ assms(3) h False] assms(1,2) by (simp add: main_inv_def)
    moreover have "pm_phase m \<noteq> Crashed" using assms(2) by (auto simp: alive_def)
    ultimately show ?thesis using assms(1,2) h False hd
      by (auto simp: onConfig_def main_inv_def alive_def)
  qed
qed

lemma captured_start_mode:
  "captured_of (start_mode getenv watch_dir ps) = Some cap \<Longrightarrow> cap = capture ps"
  by (auto simp: captured_of_def start_mode_def StartSidecarProxy_def StartGateway_def Let_def
      split: if_splits sum.splits option.splits)

lemma start_mode_ok:
  assumes "components_inv parse ps cfgs"
  shows "start_mode getenv watch_dir ps \<noteq> Crashed"
  using assms by (auto simp: start_mode_def StartSidecarProxy_def StartGateway_def Let_def GetPort_def
      components_inv_def split: if_splits sum.splits option.splits)

lemma main_inv_ready:
  assumes "main_inv parse m" "pm_phase m = Starting" "firstConfigReady m"
  shows "main_inv parse (m\<lparr>pm_phase := start_mode getenv watch_dir (pm_state m)\<rparr>)"
proof -
  have a: "alive m" using assms(2) by (simp add: alive_def)
  then have c: "components_inv parse (pm_state m) (pm_received m)" "pm_received m \<noteq> []"
    using assms(1,3) by (simp_all add: main_inv_def)
  have "c_LoadBalancer (capture (pm_state m))" if "acceptable parse (hd (pm_received m))"
    using c that by (auto simp: components_inv_def Let_def)
  then show ?thesis using c assms(3) captured_start_mode start_mode_ok [OF c(1)]
    by (auto simp: main_inv_def)
qed

lemma main_inv_reach: "main_reach parse getenv watch_dir m \<Longrightarrow> main_inv parse m"
proof (induction rule: main_reach.induct)
  case main_start
  then show ?case by (simp add: main_inv_def main_init_def captured_of_def components_inv_new)
next
  case (main_config m c o2 o1 o3 o4)
  then show ?case by (intro main_inv_config)
next
  case (main_pool m fl q fl')
  then show ?case by (simp add: main_inv_def alive_def components_inv_store)
next
  case (main_ready m)
  then show ?case by (intro main_inv_ready)
next
  case (main_timeout m)
  then show ?case by (simp add: main_inv_def alive_def captured_of_def)
next
  case (main_signal m)
  then show ?case by (simp add: main_inv_def alive_def captured_of_def)
next
  case (main_outbound m sc R target)
  then have "\<not> c_LoadBalancer (sc_captured sc)"
    by (auto simp: sidecar_admit_def split: sum.splits if_splits)
  then show ?case using main_outbound by (auto simp: main_inv_def alive_def captured_of_def)
qed


section \<open>Witness\<close>

definition example_main :: proxy_main where
  "example_main = (let m = onConfig example_parse [''a''] [''a''] [''a''] [''a''] example_cfg main_init
     in m\<lparr>pm_phase := start_mode (\<lambda>_. '''') (\<lambda>_. Inl WatcherError) (pm_state m)\<rparr>)"

lemma example_main_state:
  "onConfig example_parse [''a''] [''a''] [''a''] [''a''] example_cfg main_init =
     \<lparr>pm_state = example_ps, firstConfigReady = True, pm_phase = Starting, pm_received = [example_cfg]\<rparr>"
  using example_applied by (simp add: onConfig_def main_init_def)

lemma example_main_reach: "main_reach example_parse (\<lambda>_. '''') (\<lambda>_. Inl WatcherError) example_main"
proof -
  have "alive main_init" by (simp add: alive_def main_init_def)
  note r = main_config [OF main_start this example_order, of example_parse "\<lambda>_. ''''" "\<lambda>_. Inl WatcherError" "[''a'']" "[''a'']" "[''a'']"]
  show ?thesis unfolding example_main_def Let_def
    by (rule main_ready [OF r]) (simp_all add: example_main_state)
qed


end
