(* ===== verification/Metric_Safety.thy ===== *)
theory Metric_Safety
  imports Sidecar_Outbound Sidecar_Inbound Data_Plane
begin

text \<open>
  The Prometheus calls of the whole proxy are well typed: every handler passes each series the
  number of labels it was declared with (\<open>Metrics\<close>), so no request and no health check
  panics inside the metrics library. The proof follows the structure of the handlers.
\<close>

section \<open>Typed pools\<close>

definition typed_pool :: "pool \<Rightarrow> bool" where
  "typed_pool p \<longleftrightarrow> list_all well_typed (calls p)"

lemma typed_emit [metric_typing]: "typed_pool (emit tr p) \<longleftrightarrow> typed_pool p \<and> list_all well_typed tr"
  by (simp add: typed_pool_def)

lemma typed_upd [metric_typing]: "typed_pool (upd r f p) = typed_pool p"
  by (simp add: typed_pool_def)

lemma typed_query [metric_typing]: "typed_pool (snd (pool_GetCircuitState p s n ci)) = typed_pool p"
  by (simp add: typed_pool_def)

lemma typed_UpdateStatus [metric_typing]: "list_all well_typed (snd (UpdateStatus b h ci))"
  by (simp add: UpdateStatus_def Let_def metric_typing)

lemma typed_report [metric_typing]: "typed_pool (UpdateBackendStatus p s n h ci) = typed_pool p"
  by (simp add: UpdateBackendStatus_def metric_typing split: option.split)

lemma typed_GetNextPeer [metric_typing]: "typed_pool (snd (snd (GetNextPeer lb p s))) = typed_pool p"
  using same_backendsD(3) [OF GetNextPeer_same, of lb p s] by (simp add: typed_pool_def)

text \<open>What runs concurrently is assumed to make typed calls too.\<close>

definition keeps_typed :: "(nat \<Rightarrow> pool \<Rightarrow> pool) \<Rightarrow> bool" where
  "keeps_typed env \<longleftrightarrow> (\<forall>n p. typed_pool p \<longrightarrow> typed_pool (env n p))"

lemma keeps_typedD: "keeps_typed env \<Longrightarrow> typed_pool p \<Longrightarrow> typed_pool (env n p)"
  by (simp add: keeps_typed_def)

text \<open>A retry loop keeps the calls typed if its body does.\<close>

lemma retry_loop_typed:
  assumes "typed_pool (pl s)" "\<And>a s. typed_pool (pl s) \<Longrightarrow> typed_pool (pl (snd (body a s)))"
  shows "typed_pool (pl (snd (retry_loop m body a s)))"
  by (rule retry_loop_rule [where I = "\<lambda>_ s. typed_pool (pl s)" and Q = "\<lambda>_ s. typed_pool (pl s)"])
     (use assms in \<open>auto, metis snd_conv, metis snd_conv\<close>)

section \<open>The gateway\<close>

lemma typed_serve_attempt:
  assumes "keeps_typed (ph_env h)" "typed_pool (hs_pool s)"
  shows "typed_pool (hs_pool (snd (serve_attempt h r svc a s)))"
proof -
  obtain res lb p where g: "GetNextPeer (hs_lb s) (hs_pool s) svc = (res, lb, p)" by (metis prod.collapse)
  have p: "typed_pool p" using typed_GetNextPeer [of "hs_lb s" "hs_pool s" svc] assms(2) g by simp
  then show ?thesis using keeps_typedD [OF assms(1)]
    by (auto simp: serve_attempt_def g Let_def metric_typing split: sum.split option.split)
qed

lemma typed_ServeHTTP:
  assumes "keeps_typed (ph_env h)" "typed_pool (hs_pool s)"
  shows "typed_pool (hs_pool (snd (ServeHTTP h r s)))"
proof -
  have "typed_pool (hs_pool (snd (serve_loop h r svc t)))" if "typed_pool (hs_pool t)" for svc t
    unfolding serve_loop_def
    by (rule retry_loop_typed [where pl = hs_pool]) (use that typed_serve_attempt [OF assms(1)] in auto)
  then show ?thesis using assms(2)
    by (auto simp: ServeHTTP_def Let_def split_beta metric_typing split: sum.split lookup_error.split)
qed

section \<open>The sidecar\<close>

lemma typed_attempt_failed:
  "typed_pool (snd (attempt_failed health svc n b a p)) = typed_pool p"
  by (simp add: attempt_failed_def Let_def metric_typing)

lemma typed_outbound_exchange:
  assumes "typed_pool p"
  shows "typed_pool (os_pool (snd (outbound_exchange net health svc a b n host p s)))"
  using assms typed_attempt_failed [of health svc n b a p]
  by (auto simp: outbound_exchange_def Let_def split_beta metric_typing split: option.split)

lemma typed_outbound_attempt:
  assumes "keeps_typed (ob_env net)" "typed_pool (os_pool s)"
  shows "typed_pool (os_pool (snd (outbound_attempt net health svc a s)))"
proof -
  obtain res lb p where g: "GetNextPeer (os_lb s) (os_pool s) svc = (res, lb, p)" by (metis prod.collapse)
  have p: "typed_pool p" using typed_GetNextPeer [of "os_lb s" "os_pool s" svc] assms(2) g by simp
  then have "typed_pool (ob_env net a (upd b IncrementActiveRequests p))" for b
    by (intro keeps_typedD [OF assms(1)]) (simp add: metric_typing)
  then show ?thesis using p typed_outbound_exchange typed_attempt_failed
    by (auto simp: outbound_attempt_def g Let_def split_beta split: sum.split)
qed

lemma typed_outbound_http:
  assumes "keeps_typed (ob_env net)" "typed_pool (os_pool s)"
  shows "typed_pool (os_pool (snd (outbound_http net health router target req s)))"
proof -
  have loop: "typed_pool (os_pool (snd (retry_loop maxRetries (outbound_attempt net health svc) 0 t)))"
    if "typed_pool (os_pool t)" for svc t
    by (rule retry_loop_typed [where pl = os_pool]) (use that typed_outbound_attempt [OF assms(1)] in auto)
  show ?thesis
  proof (cases "FindServiceByVIP router target")
    case (Inr svc)
    let ?t = "s\<lparr>os_req := req\<lparr>rq_Header := ob_inject net (rq_Header req)\<rparr>\<rparr>"
    obtain res s' where l: "retry_loop maxRetries (outbound_attempt net health svc) 0 ?t = (res, s')" by fastforce
    have "typed_pool (os_pool s')" using loop [of ?t svc] assms(2) l by simp
    then show ?thesis using Inr l keeps_typedD [OF assms(1)]
      by (auto simp: outbound_http_def Let_def metric_typing split: option.split attempt_result.split)
  qed (use assms(2) in \<open>simp add: outbound_http_def Let_def\<close>)
qed

lemma typed_outbound:
  assumes "keeps_typed (ob_env net)" "typed_pool (os_pool s)"
  shows "typed_pool (os_pool (snd (handleOutboundConnection net health router s)))"
  using assms(2) typed_outbound_http [OF assms(1)]
  by (auto simp: handleOutboundConnection_def Let_def split_beta metric_typing split: sum.split option.split)

lemma typed_inbound_http: "list_all well_typed (snd (inbound_http net target closer bytes))"
  by (simp add: inbound_http_def Let_def metric_typing split: option.split)

lemma typed_inbound_forward: "list_all well_typed (snd (inbound_forward net c))"
  using typed_inbound_http
  by (auto simp: inbound_forward_def Let_def split_beta metric_typing split: sum.split option.split)

lemma typed_inbound_connection: "list_all well_typed (snd (handleInboundConnection net c))"
  using typed_inbound_forward [of net c]
  by (cases "inbound_forward net c")
     (auto simp: handleInboundConnection_def Let_def metric_typing split: tcp_search.split inbound_outcome.split)

lemma typed_inbound: "list_all well_typed (snd (startInboundListener mtls net conn))"
  using typed_inbound_connection
  by (auto simp: startInboundListener_def handleInboundWithDetection_def Let_def split_beta metric_typing
      split: list.split net_conn.split option.split)

section \<open>Health checks and the periodic gauges\<close>

lemma typed_checkBackend: "typed_pool (checkBackend get h s b p) = typed_pool p"
  by (simp add: checkBackend_def Let_def metric_typing split: http_outcome.split)

lemma typed_run_probes: "typed_pool (run_probes get h probes p) = typed_pool p"
  unfolding run_probes_def by (induction probes arbitrary: p) (auto simp: typed_checkBackend split_beta)

lemma typed_check_backends: "typed_pool (fst (check_backends h s bs p probes)) = typed_pool p"
  by (induction bs arbitrary: p probes) (auto simp: split_beta Let_def metric_typing)

lemma typed_check_services: "typed_pool (fst (check_services h ss p probes)) = typed_pool p"
  by (induction ss arbitrary: p probes) (auto simp: split_beta Let_def typed_check_backends split: option.split)

lemma typed_UpdateMetrics: "typed_pool (store (UpdateMetrics order ps)) = typed_pool (store ps)"
proof -
  have "list_all well_typed (concat (map (\<lambda>r. UpdateBackendConnections (f r) (g r)) rs))" for f :: "bref \<Rightarrow> string" and g rs
    by (induction rs) (simp_all add: metric_typing)
  then show ?thesis by (simp add: UpdateMetrics_def metric_typing)
qed

text \<open>
  C38. Every call on a Prometheus series that the proxy makes is well typed, with the number of
  labels the series was declared with and a method of its kind: on every path through the
  gateway's handler and the sidecar's outbound and inbound handlers, in every health check round
  and in the periodic update of the gauges. So the metrics library, which panics otherwise,
  never takes down a request or the process.
\<close>

theorem metric_calls_well_typed:
  assumes "keeps_typed (ph_env h)" "typed_pool (hs_pool s)" "keeps_typed (ob_env net)" "typed_pool (os_pool t)"
    "typed_pool (store ps)"
  shows "typed_pool (hs_pool (snd (ServeHTTP h r s))) \<and>
    typed_pool (os_pool (snd (handleOutboundConnection net health router t))) \<and>
    list_all well_typed (snd (startInboundListener mtls inet conn)) \<and>
    typed_pool (run_probes get hk probes (fst (Check_tick hk order (store ps)))) \<and>
    typed_pool (store (UpdateMetrics order ps))"
  using assms typed_ServeHTTP typed_outbound typed_inbound
  by (simp add: typed_run_probes Check_tick_def typed_check_services typed_UpdateMetrics)

section \<open>Witness\<close>

theorem metric_calls_well_typed_witness:
  "typed_pool (hs_pool (snd (ServeHTTP (example_handler (\<lambda>_ _. None)) example_request example_state))) \<and>
   list_all well_typed (snd (startInboundListener False example_inbound (TCPConn ''GET / HTTP/1.1'')))"
proof -
  have "typed_pool loaded_pool" "typed_pool empty_pool"
    by (simp_all add: typed_pool_def loaded_pool_def empty_pool_def UpdateBackends_def)
  then show ?thesis
    using metric_calls_well_typed [of "example_handler (\<lambda>_ _. None)" example_state example_net example_ostate NewProxyState
        example_request _ _ False example_inbound "TCPConn ''GET / HTTP/1.1''"]
    by (simp add: keeps_typed_def example_handler_def example_net_def example_ostate_def NewProxyState_def)
qed

end
