(* ===== verification/Process_Life.thy ===== *)
theory Process_Life
  imports Proxy_Main
begin

text \<open>
  How the processes serve and stop: the rest of \<open>StartGateway\<close> (\<open>pkg/proxy/gateway.go\<close>), the end
  of \<open>StartSidecarProxy\<close> and \<open>startOutboundListener\<close> (\<open>pkg/proxy/listener.go\<close>), and the main
  programs of the services under \<open>services\<close>, which all have the same end. The HTTP server is
  net/http's, of which its documentation is used: \<open>Shutdown\<close> stops accepting, makes
  \<open>ListenAndServe\<close> return at once, and itself returns when no request is in flight or its
  context has expired. When main returns, the process ends, with whatever still runs in it.
\<close>

section \<open>The HTTP server\<close>

record http_server =
  srv_inflight :: nat
  srv_shutting :: bool

datatype traffic = Arrive | Finish

fun server_traffic :: "traffic \<Rightarrow> http_server \<Rightarrow> http_server option" where
  "server_traffic Arrive srv = (if srv_shutting srv then None else Some (srv\<lparr>srv_inflight := srv_inflight srv + 1\<rparr>))"
| "server_traffic Finish srv = (if srv_inflight srv = 0 then None else Some (srv\<lparr>srv_inflight := srv_inflight srv - 1\<rparr>))"

definition server_Shutdown :: "http_server \<Rightarrow> http_server" where
  "server_Shutdown srv = srv\<lparr>srv_shutting := True\<rparr>"

definition Shutdown_returns :: "bool \<Rightarrow> http_server \<Rightarrow> bool" where
  "Shutdown_returns expired srv \<longleftrightarrow> srv_inflight srv = 0 \<or> expired"

datatype exit = MainReturned | FatalError

section \<open>The gateway\<close>

text \<open>
  The goroutine that waits for the signal, the ticker's goroutine and the serving one, which
  is main's. \<open>gr_ctxDone\<close> is the context that \<open>cancel\<close> ends.
\<close>

datatype signal_goroutine = AwaitSignal | ShuttingDown | SignalDone

record gateway_run =
  gr_server :: http_server
  gr_signal :: signal_goroutine
  gr_state :: ProxyState
  gr_ctxDone :: bool
  gr_exit :: "exit option"

definition gateway_start :: "ProxyState \<Rightarrow> gateway_run" where
  "gateway_start ps =
     \<lparr>gr_server = \<lparr>srv_inflight = 0, srv_shutting = False\<rparr>, gr_signal = AwaitSignal, gr_state = ps,
      gr_ctxDone = False, gr_exit = None\<rparr>"

text \<open>
  The steps while the process lives. The state of the proxy also changes by configurations and
  requests (\<open>g_other\<close>). \<open>expired\<close> is the ten-second limit of the shutdown context.
\<close>

inductive gateway_step :: "gateway_run \<Rightarrow> gateway_run \<Rightarrow> bool" where
  g_traffic: "gr_exit g = None \<Longrightarrow> server_traffic ev (gr_server g) = Some srv \<Longrightarrow> gateway_step g (g\<lparr>gr_server := srv\<rparr>)"
| g_other: "gr_exit g = None \<Longrightarrow> gateway_step g (g\<lparr>gr_state := ps\<rparr>)"
| g_tick: "gr_exit g = None \<Longrightarrow> \<not> gr_ctxDone g \<Longrightarrow> range_order (Backends (store (gr_state g))) order \<Longrightarrow>
    gateway_step g (g\<lparr>gr_state := UpdateMetrics order (gr_state g)\<rparr>)"
| g_signal: "gr_exit g = None \<Longrightarrow> gr_signal g = AwaitSignal \<Longrightarrow>
    gateway_step g (g\<lparr>gr_signal := ShuttingDown, gr_server := server_Shutdown (gr_server g)\<rparr>)"
| g_shutdown: "gr_exit g = None \<Longrightarrow> gr_signal g = ShuttingDown \<Longrightarrow> Shutdown_returns expired (gr_server g) \<Longrightarrow>
    gateway_step g (g\<lparr>gr_signal := SignalDone, gr_ctxDone := True\<rparr>)"
| g_listen_error: "gr_exit g = None \<Longrightarrow> \<not> srv_shutting (gr_server g) \<Longrightarrow> gateway_step g (g\<lparr>gr_exit := Some FatalError\<rparr>)"
| g_return: "gr_exit g = None \<Longrightarrow> srv_shutting (gr_server g) \<Longrightarrow>
    gateway_step g (g\<lparr>gr_ctxDone := True, gr_exit := Some MainReturned\<rparr>)"

definition gateway_reach :: "gateway_run \<Rightarrow> bool" where
  "gateway_reach g \<longleftrightarrow> (\<exists>ps. gateway_step\<^sup>*\<^sup>* (gateway_start ps) g)"

section \<open>The sidecar\<close>

text \<open>
  \<open>startOutboundListener\<close>: a port that cannot be listened on ends the process; otherwise, per round of the accept
  loop, an error is logged, a connection of another type is closed, and a TCP connection is
  handed to a goroutine.
\<close>

datatype accepted = AcceptError | NotTCP | AcceptedTCP

datatype accept_action = KeepAccepting | CloseConn | GoHandle

definition accept_round :: "accepted \<Rightarrow> accept_action" where
  "accept_round a =
     (case a of AcceptError \<Rightarrow> KeepAccepting | NotTCP \<Rightarrow> CloseConn | AcceptedTCP \<Rightarrow> GoHandle)"

definition startOutboundListener :: "bool \<Rightarrow> accepted list \<Rightarrow> exit + accept_action list" where
  "startOutboundListener listen_ok conns = (if \<not> listen_ok then Inl FatalError else Inr (map accept_round conns))"

record sidecar_run =
  sr_conns :: nat
  sr_admin :: http_server
  sr_ctxDone :: bool
  sr_returning :: bool
  sr_exit :: "exit option"

definition sidecar_start :: sidecar_run where
  "sidecar_start =
     \<lparr>sr_conns = 0, sr_admin = \<lparr>srv_inflight = 0, srv_shutting = False\<rparr>, sr_ctxDone = False,
      sr_returning = False, sr_exit = None\<rparr>"

text \<open>
  The listeners accept as long as the process lives; after the signal, or the end of the
  context, \<open>StartSidecarProxy\<close> cancels and runs its deferred shutdown of the admin server.
\<close>

inductive sidecar_step :: "sidecar_run \<Rightarrow> sidecar_run \<Rightarrow> bool" where
  s_accept: "sr_exit s = None \<Longrightarrow> startOutboundListener True [a] = Inr [GoHandle] \<Longrightarrow> sidecar_step s (s\<lparr>sr_conns := sr_conns s + 1\<rparr>)"
| s_listen_error: "sr_exit s = None \<Longrightarrow> startOutboundListener False conns = Inl e \<Longrightarrow> sidecar_step s (s\<lparr>sr_exit := Some e\<rparr>)"
| s_finish: "sr_exit s = None \<Longrightarrow> sr_conns s > 0 \<Longrightarrow> sidecar_step s (s\<lparr>sr_conns := sr_conns s - 1\<rparr>)"
| s_admin: "sr_exit s = None \<Longrightarrow> server_traffic ev (sr_admin s) = Some srv \<Longrightarrow> sidecar_step s (s\<lparr>sr_admin := srv\<rparr>)"
| s_signal: "sr_exit s = None \<Longrightarrow> \<not> sr_returning s \<Longrightarrow>
    sidecar_step s (s\<lparr>sr_ctxDone := True, sr_returning := True, sr_admin := server_Shutdown (sr_admin s)\<rparr>)"
| s_return: "sr_exit s = None \<Longrightarrow> sr_returning s \<Longrightarrow> Shutdown_returns False (sr_admin s) \<Longrightarrow>
    sidecar_step s (s\<lparr>sr_exit := Some MainReturned\<rparr>)"

definition sidecar_reach :: "sidecar_run \<Rightarrow> bool" where
  "sidecar_reach s \<longleftrightarrow> sidecar_step\<^sup>*\<^sup>* sidecar_start s"

section \<open>The services\<close>

text \<open>
  Main waits for the signal itself and calls \<open>Shutdown\<close> before it returns; an expired context
  ends in a fatal log.
\<close>

record service_run =
  sv_server :: http_server
  sv_stopping :: bool
  sv_exit :: "exit option"

definition service_start :: service_run where
  "service_start = \<lparr>sv_server = \<lparr>srv_inflight = 0, srv_shutting = False\<rparr>, sv_stopping = False, sv_exit = None\<rparr>"

inductive service_step :: "service_run \<Rightarrow> service_run \<Rightarrow> bool" where
  v_traffic: "sv_exit s = None \<Longrightarrow> server_traffic ev (sv_server s) = Some srv \<Longrightarrow> service_step s (s\<lparr>sv_server := srv\<rparr>)"
| v_listen_error: "sv_exit s = None \<Longrightarrow> \<not> srv_shutting (sv_server s) \<Longrightarrow> service_step s (s\<lparr>sv_exit := Some FatalError\<rparr>)"
| v_signal: "sv_exit s = None \<Longrightarrow> \<not> sv_stopping s \<Longrightarrow>
    service_step s (s\<lparr>sv_stopping := True, sv_server := server_Shutdown (sv_server s)\<rparr>)"
| v_return: "sv_exit s = None \<Longrightarrow> sv_stopping s \<Longrightarrow> Shutdown_returns False (sv_server s) \<Longrightarrow>
    service_step s (s\<lparr>sv_exit := Some MainReturned\<rparr>)"
| v_forced: "sv_exit s = None \<Longrightarrow> sv_stopping s \<Longrightarrow> service_step s (s\<lparr>sv_exit := Some FatalError\<rparr>)"

definition service_reach :: "service_run \<Rightarrow> bool" where
  "service_reach s \<longleftrightarrow> service_step\<^sup>*\<^sup>* service_start s"

section \<open>Who waits for its requests\<close>

text \<open>
  The contract of a process: it starts running, stops for good when it exits, and main returns
  only in a settled state.
\<close>

locale stopping_process =
  fixes step :: "'p \<Rightarrow> 'p \<Rightarrow> bool"
    and start :: "'p \<Rightarrow> bool"
    and exit_of :: "'p \<Rightarrow> exit option"
    and inv :: "'p \<Rightarrow> bool"
    and settled :: "'p \<Rightarrow> bool"
  assumes started: "start p \<Longrightarrow> inv p \<and> exit_of p = None"
    and step_inv: "step p q \<Longrightarrow> inv p \<Longrightarrow> inv q"
    and alive: "step p q \<Longrightarrow> exit_of p = None"
    and returns: "step p q \<Longrightarrow> inv p \<Longrightarrow> exit_of q = Some MainReturned \<Longrightarrow> settled q"
begin

lemma reach_inv: "step\<^sup>*\<^sup>* p q \<Longrightarrow> start p \<Longrightarrow> inv q"
  by (induction rule: rtranclp_induct) (use started step_inv in blast)+

lemma returned_settled:
  assumes "step\<^sup>*\<^sup>* p q" "start p" "exit_of q = Some MainReturned"
  shows "settled q"
  using assms(1)
proof (cases rule: rtranclp.cases)
  case rtrancl_refl
  then show ?thesis using started [OF assms(2)] assms(3) by simp
next
  case (rtrancl_into_rtrancl r)
  then show ?thesis using returns reach_inv [OF _ assms(2)] assms(3) by blast
qed

lemma exit_is_final: "step\<^sup>*\<^sup>* p q \<Longrightarrow> exit_of p \<noteq> None \<Longrightarrow> q = p"
  by (induction rule: rtranclp_induct) (use alive in auto)

end

inductive_cases service_stepE: "service_step s t"
inductive_cases sidecar_stepE: "sidecar_step s t"
inductive_cases gateway_stepE: "gateway_step g h"

interpretation svp: stopping_process service_step "\<lambda>s. s = service_start" sv_exit "\<lambda>_. True"
  "\<lambda>s. sv_stopping s \<and> srv_inflight (sv_server s) = 0"
  by unfold_locales (auto simp: service_start_def Shutdown_returns_def elim!: service_stepE)

interpretation scp: stopping_process sidecar_step "\<lambda>s. s = sidecar_start" sr_exit "\<lambda>s. sr_returning s \<longrightarrow> sr_ctxDone s"
  "\<lambda>s. sr_ctxDone s \<and> srv_inflight (sr_admin s) = 0"
  by unfold_locales (auto simp: sidecar_start_def Shutdown_returns_def startOutboundListener_def elim!: sidecar_stepE)

lemma traffic_keeps_shutting: "server_traffic ev srv = Some srv' \<Longrightarrow> srv_shutting srv' = srv_shutting srv"
  by (cases ev) (auto split: if_splits)

interpretation gwp: stopping_process gateway_step "\<lambda>g. \<exists>ps. g = gateway_start ps" gr_exit
  "\<lambda>g. srv_shutting (gr_server g) \<longrightarrow> gr_signal g \<noteq> AwaitSignal" "\<lambda>g. gr_signal g \<noteq> AwaitSignal"
  by unfold_locales (auto simp: gateway_start_def traffic_keeps_shutting elim!: gateway_stepE)

text \<open>Two steps end a gateway, three a sidecar, whatever is in flight.\<close>

lemma gateway_quick_exit:
  assumes "gr_exit g = None" "gr_signal g = AwaitSignal"
  shows "gateway_step\<^sup>*\<^sup>* g (g\<lparr>gr_signal := ShuttingDown, gr_server := server_Shutdown (gr_server g),
    gr_ctxDone := True, gr_exit := Some MainReturned\<rparr>)"
proof -
  let ?g = "g\<lparr>gr_signal := ShuttingDown, gr_server := server_Shutdown (gr_server g)\<rparr>"
  have "gateway_step g ?g" by (rule g_signal [OF assms])
  moreover have "gateway_step ?g (?g\<lparr>gr_ctxDone := True, gr_exit := Some MainReturned\<rparr>)"
    by (rule g_return) (simp_all add: assms server_Shutdown_def)
  ultimately show ?thesis by (simp add: rtranclp.rtrancl_into_rtrancl r_into_rtranclp)
qed

lemma sidecar_quick_exit:
  assumes "sr_exit s = None" "\<not> sr_returning s" "srv_inflight (sr_admin s) = 0"
  shows "sidecar_step\<^sup>*\<^sup>* s (s\<lparr>sr_ctxDone := True, sr_returning := True, sr_admin := server_Shutdown (sr_admin s),
    sr_exit := Some MainReturned\<rparr>)"
proof -
  let ?s = "s\<lparr>sr_ctxDone := True, sr_returning := True, sr_admin := server_Shutdown (sr_admin s)\<rparr>"
  have "sidecar_step s ?s" by (rule s_signal [OF assms(1,2)])
  moreover have "sidecar_step ?s (?s\<lparr>sr_exit := Some MainReturned\<rparr>)"
    by (rule s_return) (simp_all add: assms server_Shutdown_def Shutdown_returns_def)
  ultimately show ?thesis by (simp add: rtranclp.rtrancl_into_rtrancl r_into_rtranclp)
qed

text \<open>
  C39. What a termination signal does to requests in flight. No process returns without the
  signal. A service's main returns only when no request
  is left (otherwise it ends in a fatal error after its limit). But a gateway that has not
  got the signal yet may end with every request it is serving still unanswered: \<open>ListenAndServe\<close>
  returns as soon as \<open>Shutdown\<close> is called, \<open>StartGateway\<close> and main return, and the goroutine
  that waits for the requests dies with the process. A sidecar waits for its admin server only, and
  may end with all its proxied connections open.
\<close>

theorem shutdown_cuts_proxied_requests:
  "(service_reach v \<and> sv_exit v = Some MainReturned \<longrightarrow> sv_stopping v \<and> srv_inflight (sv_server v) = 0) \<and>
   (gateway_reach g \<and> gr_exit g = Some MainReturned \<longrightarrow> gr_signal g \<noteq> AwaitSignal) \<and>
   (sidecar_reach s \<and> sr_exit s = Some MainReturned \<longrightarrow> sr_ctxDone s \<and> srv_inflight (sr_admin s) = 0) \<and>
   (gateway_reach g \<and> gr_exit g = None \<and> gr_signal g = AwaitSignal \<longrightarrow>
     (\<exists>g'. gateway_reach g' \<and> gr_exit g' = Some MainReturned \<and> gr_signal g' = ShuttingDown \<and>
       srv_inflight (gr_server g') = srv_inflight (gr_server g))) \<and>
   (sidecar_reach s \<and> sr_exit s = None \<and> \<not> sr_returning s \<and> srv_inflight (sr_admin s) = 0 \<longrightarrow>
     (\<exists>s'. sidecar_reach s' \<and> sr_exit s' = Some MainReturned \<and> sr_conns s' = sr_conns s))"
proof (intro conjI impI)
  assume "gateway_reach g \<and> gr_exit g = None \<and> gr_signal g = AwaitSignal"
  then obtain ps where g: "gateway_step\<^sup>*\<^sup>* (gateway_start ps) g" "gr_exit g = None" "gr_signal g = AwaitSignal"
    by (auto simp: gateway_reach_def)
  from rtranclp_trans [OF g(1) gateway_quick_exit [OF g(2,3)]]
  show "\<exists>g'. gateway_reach g' \<and> gr_exit g' = Some MainReturned \<and> gr_signal g' = ShuttingDown \<and>
      srv_inflight (gr_server g') = srv_inflight (gr_server g)"
    unfolding gateway_reach_def by (intro exI conjI) (assumption, simp_all add: server_Shutdown_def)
next
  assume "sidecar_reach s \<and> sr_exit s = None \<and> \<not> sr_returning s \<and> srv_inflight (sr_admin s) = 0"
  then have s: "sidecar_step\<^sup>*\<^sup>* sidecar_start s" "sr_exit s = None" "\<not> sr_returning s" "srv_inflight (sr_admin s) = 0"
    by (simp_all add: sidecar_reach_def)
  from rtranclp_trans [OF s(1) sidecar_quick_exit [OF s(2-4)]]
  show "\<exists>s'. sidecar_reach s' \<and> sr_exit s' = Some MainReturned \<and> sr_conns s' = sr_conns s"
    unfolding sidecar_reach_def by (intro exI conjI) (assumption, simp_all)
next
  assume "service_reach v \<and> sv_exit v = Some MainReturned"
  then show "sv_stopping v" "srv_inflight (sv_server v) = 0"
    using svp.returned_settled [OF _ refl] by (simp_all add: service_reach_def)
next
  assume "gateway_reach g \<and> gr_exit g = Some MainReturned"
  then show "gr_signal g \<noteq> AwaitSignal"
    unfolding gateway_reach_def using gwp.returned_settled by blast
next
  assume "sidecar_reach s \<and> sr_exit s = Some MainReturned"
  then show "sr_ctxDone s" "srv_inflight (sr_admin s) = 0"
    using scp.returned_settled [OF _ refl] by (simp_all add: sidecar_reach_def)
qed

section \<open>Witness\<close>

theorem shutdown_cuts_proxied_requests_witness:
  "\<exists>g'. gateway_reach g' \<and> gr_exit g' = Some MainReturned \<and> srv_inflight (gr_server g') = 1"
proof -
  let ?g = "(gateway_start NewProxyState)\<lparr>gr_server := \<lparr>srv_inflight = 1, srv_shutting = False\<rparr>\<rparr>"
  have "gateway_step (gateway_start NewProxyState) ?g"
    by (rule g_traffic [where ev = Arrive]) (simp_all add: gateway_start_def)
  then have "gateway_reach ?g" by (auto simp: gateway_reach_def)
  then show ?thesis
    using shutdown_cuts_proxied_requests [of service_start ?g sidecar_start] by (auto simp: gateway_start_def)
qed

end
