(* ===== verification/Demo_Services.thy ===== *)
theory Demo_Services
  imports Process_Life Load_Balancer
begin

text \<open>
  \<open>services/users\<close>, \<open>auth\<close>, \<open>payments\<close>, \<open>analytics\<close> and \<open>echo\<close>: the HTTP services that run behind the
  mesh and simulate latency and failures. The four first share their structure and differ in
  names and one field of the answer. JSON encoding is the library's; a body is the value that is
  encoded. The end of their mains is \<open>service_step\<close> of \<open>Process_Life\<close>.
\<close>

section \<open>Requests and answers\<close>

text \<open>\<open>dr_query k\<close> is \<open>r.URL.Query().Get(k)\<close>.\<close>

record demo_request =
  dr_Method :: string
  dr_Path :: string
  dr_Header :: header
  dr_query :: "string \<Rightarrow> string"
  dr_RemoteAddr :: string

datatype demo_body =
    TextBody string
  | ErrorBody string
  | ServiceBody string "string \<times> string" header
  | EchoBody demo_request
  | StatusBody string
  | NoBody

record demo_answer =
  da_status :: int
  da_body :: demo_body
  da_slept :: duration

text \<open>\<open>None\<close> is a panic of the handler, which makes net/http drop the connection.\<close>

type_synonym demo_result = "demo_answer option"

text \<open>\<open>strconv.Atoi\<close> with its error.\<close>

definition Atoi_err :: "string \<Rightarrow> int option" where
  "Atoi_err s =
     (let (neg, ds) = split_sign s;
          v = (if neg then - int (digits_val ds) else int (digits_val ds))
      in if ds = [] \<or> \<not> list_all is_digit ds then None
         else if v \<ge> 2 ^ 63 \<or> v < - (2 ^ 63) then None else Some v)"

text \<open>\<open>time.Duration(ms) * time.Millisecond\<close>, which wraps around.\<close>

definition milliseconds :: "int \<Rightarrow> duration" where
  "milliseconds ms = word_of_int ms * 1000000"

text \<open>
  \<open>WriteHeader\<close>: codes outside of 100 to 999 panic; an informational code other than 101 does
  not settle the status, which is then 200 with the body; 101, 204 and 304 have no body.
\<close>

definition written :: "int \<Rightarrow> demo_body \<Rightarrow> duration \<Rightarrow> demo_answer" where
  "written code body d =
     (let status = (if 100 \<le> code \<and> code \<le> 199 \<and> code \<noteq> 101 then 200 else code)
      in \<lparr>da_status = status, da_body = (if status = 101 \<or> status = 204 \<or> status = 304 then NoBody else body), da_slept = d\<rparr>)"

section \<open>The handlers\<close>

definition demo_handler :: "string \<Rightarrow> (string \<times> string) \<Rightarrow> (int \<Rightarrow> string) \<Rightarrow> demo_request \<Rightarrow> demo_result" where
  "demo_handler service field message r =
     (let slept = (if dr_query r ''sleep'' = '''' then 0
                   else case Atoi_err (dr_query r ''sleep'') of None \<Rightarrow> 0 | Some ms \<Rightarrow> milliseconds ms);
          answer = ServiceBody service field (dr_Header r)
      in if dr_query r ''code'' = '''' then Some (written 200 answer slept)
         else case Atoi_err (dr_query r ''code'') of
                None \<Rightarrow> Some (written 200 answer slept)
              | Some code \<Rightarrow>
                  if code < 100 \<or> code > 999 then None
                  else if code \<ge> 400 then Some (written code (ErrorBody (message code)) slept)
                  else Some (written code answer slept))"

definition handleUsers :: "demo_request \<Rightarrow> demo_result" where
  "handleUsers = demo_handler ''users'' (''data'', ''[]'') (\<lambda>_. ''Forced error'')"

definition handleAuth :: "demo_request \<Rightarrow> demo_result" where
  "handleAuth = demo_handler ''auth'' (''status'', ''authenticated'') (\<lambda>_. ''Forced error'')"

definition handlePayments :: "demo_request \<Rightarrow> demo_result" where
  "handlePayments = demo_handler ''payments'' (''balance'', ''1000'') (\<lambda>_. ''Forced error'')"

definition handleAnalytics :: "demo_request \<Rightarrow> demo_result" where
  "handleAnalytics = demo_handler ''analytics'' (''events'', ''[]'') (\<lambda>code. ''Forced error: '' @ itoa code)"

definition echoHandler :: "demo_request \<Rightarrow> demo_result" where
  "echoHandler r =
     (if dr_Method r \<noteq> ''GET'' then Some (written 405 (TextBody ''Method not allowed'') 0)
      else if dr_query r ''sleep'' = '''' then Some (written 200 (EchoBody r) 0)
      else case Atoi_err (dr_query r ''sleep'') of
             None \<Rightarrow> Some (written 400 (TextBody ''Invalid sleep parameter'') 0)
           | Some ms \<Rightarrow> Some (written 200 (EchoBody r) (milliseconds ms)))"

text \<open>The health endpoint of echo, which says \<open>unhealthy\<close> in a successful answer.\<close>

definition echo_healthHandler :: demo_result where
  "echo_healthHandler = Some (written 200 (StatusBody ''unhealthy'') 0)"

section \<open>The health switch\<close>

text \<open>\<open>isHealthy\<close> is the state of a service; the routes are on the cleaned path.\<close>

definition health_endpoint :: "string \<Rightarrow> bool \<Rightarrow> demo_result" where
  "health_endpoint ok isHealthy =
     (if \<not> isHealthy then Some (written 500 (TextBody ''Service Unhealthy'') 0) else Some (written 200 (TextBody ok) 0))"

definition toggle_endpoint :: "demo_request \<Rightarrow> bool \<Rightarrow> demo_result \<times> bool" where
  "toggle_endpoint r isHealthy =
     (if dr_Method r \<noteq> ''POST'' then (Some (written 405 (TextBody ''Method not allowed'') 0), isHealthy)
      else (Some (written 200 (TextBody ''Health toggled'') 0), \<not> isHealthy))"

definition demo_mux :: "(demo_request \<Rightarrow> demo_result) \<Rightarrow> string \<Rightarrow> demo_request \<Rightarrow> bool \<Rightarrow> demo_result \<times> bool" where
  "demo_mux handler ok r isHealthy =
     (if dr_Path r = ''/health'' then (health_endpoint ok isHealthy, isHealthy)
      else if dr_Path r = ''/health/toggle'' then toggle_endpoint r isHealthy
      else (handler r, isHealthy))"

definition echo_mux :: "demo_request \<Rightarrow> demo_result" where
  "echo_mux r = (if dr_Path r = ''/health'' then echo_healthHandler else echoHandler r)"

text \<open>The ports of the services, which \<open>PORT\<close> overrides.\<close>

definition demo_port :: "(string \<Rightarrow> string) \<Rightarrow> string \<Rightarrow> string" where
  "demo_port getenv defaultPort = (if getenv ''PORT'' = '''' then defaultPort else getenv ''PORT'')"

text \<open>
  The five mains up to the listening server: the routes, the state \<open>isHealthy\<close> that echo does
  not have, and the address.
\<close>

record demo_service =
  dm_mux :: "demo_request \<Rightarrow> bool \<Rightarrow> demo_result \<times> bool"
  dm_isHealthy :: bool
  dm_Addr :: string
  dm_run :: service_run

definition serve_demo :: "(string \<Rightarrow> string) \<Rightarrow> string \<Rightarrow> (demo_request \<Rightarrow> bool \<Rightarrow> demo_result \<times> bool) \<Rightarrow> demo_service" where
  "serve_demo getenv defaultPort mux =
     \<lparr>dm_mux = mux, dm_isHealthy = True, dm_Addr = '':'' @ demo_port getenv defaultPort, dm_run = service_start\<rparr>"

definition users_main :: "(string \<Rightarrow> string) \<Rightarrow> demo_service" where
  "users_main getenv = serve_demo getenv ''5002'' (demo_mux handleUsers ''OK'')"

definition auth_main :: "(string \<Rightarrow> string) \<Rightarrow> demo_service" where
  "auth_main getenv = serve_demo getenv ''5001'' (demo_mux handleAuth ''Ok'')"

definition payments_main :: "(string \<Rightarrow> string) \<Rightarrow> demo_service" where
  "payments_main getenv = serve_demo getenv ''5003'' (demo_mux handlePayments ''Ok'')"

definition analytics_main :: "(string \<Rightarrow> string) \<Rightarrow> demo_service" where
  "analytics_main getenv = serve_demo getenv ''5004'' (demo_mux handleAnalytics ''Ok'')"

definition echo_main :: "(string \<Rightarrow> string) \<Rightarrow> demo_service" where
  "echo_main getenv = serve_demo getenv ''4199'' (\<lambda>r isHealthy. (echo_mux r, isHealthy))"

lemmas demo_mains = users_main_def auth_main_def payments_main_def analytics_main_def echo_main_def serve_demo_def

text \<open>One request to a service.\<close>

definition demo_serve :: "demo_request \<Rightarrow> demo_service \<Rightarrow> demo_result \<times> demo_service" where
  "demo_serve r s = (case dm_mux s r (dm_isHealthy s) of (res, h) \<Rightarrow> (res, s\<lparr>dm_isHealthy := h\<rparr>))"

text \<open>
  On one host the services need no \<open>PORT\<close>, and with it they collide. Only the four services with a
  switch can be switched off: the health endpoint of echo answers 200 after any requests.
\<close>

lemma demo_addresses:
  "distinct (map (\<lambda>m. dm_Addr (m getenv)) [users_main, auth_main, payments_main, analytics_main, echo_main]) \<longleftrightarrow> getenv ''PORT'' = ''''"
  by (simp add: demo_mains demo_port_def)

lemma demo_serve_mux: "dm_mux (snd (demo_serve r s)) = dm_mux s"
  by (simp add: demo_serve_def split_beta)

lemma echo_always_healthy:
  assumes "dr_Path r = ''/health''"
  shows "map_option da_status (fst (demo_serve r (fold (\<lambda>q s. snd (demo_serve q s)) qs (echo_main getenv)))) = Some 200"
proof -
  have "dm_mux (fold (\<lambda>q s. snd (demo_serve q s)) qs s) = dm_mux s" for s
    by (induction qs arbitrary: s) (simp_all add: demo_serve_mux)
  then show ?thesis using assms
    by (simp add: demo_serve_def demo_mains echo_mux_def echo_healthHandler_def written_def)
qed

section \<open>Forced answers\<close>

lemma Atoi_err_itoa: "0 \<le> k \<Longrightarrow> k < 2 ^ 63 \<Longrightarrow> Atoi_err (itoa k) = Some k"
  using split_sign_itoa [of k] by (simp add: Atoi_err_def)

lemmas demo_handlers = handleUsers_def handleAuth_def handlePayments_def handleAnalytics_def

text \<open>
  A request can force the status of a service: three-digit codes from 200 on are answered as
  asked, with an error body from 400 on; informational codes end in 200; and every other number
  makes the handler panic, since \<open>WriteHeader\<close> does.
\<close>

theorem forced_status:
  assumes "dr_query r ''code'' = itoa k" "0 \<le> k" "k < 2 ^ 63" "handler \<in> {handleUsers, handleAuth, handlePayments, handleAnalytics}"
  shows "map_option da_status (handler r) =
    (if k < 100 \<or> k > 999 then None else if k < 200 \<and> k \<noteq> 101 then Some 200 else Some k)"
  using assms(4) Atoi_err_itoa [OF assms(2,3)] split_sign_itoa(4) [OF assms(2)] assms(1)
  by (auto simp: demo_handlers demo_handler_def Let_def written_def)

section \<open>A drill: switching a service off\<close>

text \<open>What the health checker gets from a service behind a URL.\<close>

definition demo_probe :: "(demo_request \<Rightarrow> demo_result) \<Rightarrow> string \<Rightarrow> bool \<Rightarrow> URL \<Rightarrow> http_outcome" where
  "demo_probe handler ok isHealthy u =
     (case fst (demo_mux handler ok
             \<lparr>dr_Method = ''GET'', dr_Path = UPath u, dr_Header = Map.empty, dr_query = (\<lambda>_. ''''), dr_RemoteAddr = ''''\<rparr> isHealthy) of
        None \<Rightarrow> DoErr
      | Some a \<Rightarrow> Response (da_status a))"

lemma demo_probe_health:
  "demo_probe handler ok isHealthy (u\<lparr>UPath := ''/health''\<rparr>) = Response (if isHealthy then 200 else 500)"
  by (simp add: demo_probe_def demo_mux_def health_endpoint_def written_def)

lemma checkBackend_demo:
  "checkBackend (demo_probe handler ok isHealthy) h s r p = UpdateBackendStatus p s (Name (heap p r)) isHealthy (getInterval h)"
  by (simp add: checkBackend_def demo_probe_health)


section \<open>Witnesses\<close>

definition toggle_request :: demo_request where
  "toggle_request = \<lparr>dr_Method = ''POST'', dr_Path = ''/health/toggle'', dr_Header = Map.empty, dr_query = (\<lambda>_. ''''), dr_RemoteAddr = ''''\<rparr>"


theorem forced_status_witness:
  "map_option da_status (handleUsers (toggle_request\<lparr>dr_query := (\<lambda>_. itoa 503)\<rparr>)) = Some 503"
  using forced_status [of "toggle_request\<lparr>dr_query := (\<lambda>_. itoa 503)\<rparr>" 503 handleUsers] by simp

end
