(* ===== verification/Discovery_Tool.thy ===== *)
theory Discovery_Tool
  imports K8s_Client
begin

text \<open>
  \<open>k8s-client/main.go\<close>: the discovery engine that prints what the informers of a cluster report.
  A printed line is a value of \<open>line\<close> that names its format and arguments. The informer calls a
  handler with an object; after a missed deletion it passes a tombstone
  (\<open>cache.DeletedFinalStateUnknown\<close>) instead. \<open>None\<close> is the panic of a failed type assertion, which
  ends the program.
\<close>

section \<open>Objects\<close>

record dt_Port =
  dp_Name :: "string option"
  dp_Port :: "int32 option"
  dp_Protocol :: "string option"

record dt_Endpoint =
  de_Addresses :: "string list"
  de_Ready :: "bool option"
  de_Zone :: "string option"
  de_TargetRef :: "string option"

record dt_Slice =
  ds_Namespace :: string
  ds_Name :: string
  ds_Labels :: "string \<rightharpoonup> string"
  ds_Ports :: "dt_Port list"
  ds_Endpoints :: "dt_Endpoint list"

record dt_Service =
  dv_Namespace :: string
  dv_Name :: string
  dv_Selector :: "(string \<times> string) list"
  dv_Ports :: "(string \<times> int32 \<times> string) list"

record dt_Pod =
  pd_Namespace :: string
  pd_Name :: string
  pd_IP :: string
  pd_Phase :: string

record dt_Namespace =
  nm_Name :: string
  nm_Phase :: string

datatype line =
    ServiceLine string string string
  | WithoutSelector
  | WithSelector "(string \<times> string) list"
  | PortLine string int32 string
  | SliceLine string string string string
  | ExternalIP string string
  | PodIP string string string
  | PodLine string string string string string
  | NamespaceLine string string string

datatype 'a informed = Informed 'a | Tombstone

section \<open>Handlers\<close>

definition handleServiceChange :: "dt_Service \<Rightarrow> string \<Rightarrow> line list" where
  "handleServiceChange svc eventType =
     [ServiceLine eventType (dv_Namespace svc) (dv_Name svc)] @
     (if length (dv_Selector svc) = 0 then [WithoutSelector] else [WithSelector (dv_Selector svc)]) @
     map (\<lambda>(name, port, protocol). PortLine name port protocol) (dv_Ports svc)"

definition or_default :: "'a \<Rightarrow> 'a option \<Rightarrow> 'a" where
  "or_default d x = (case x of None \<Rightarrow> d | Some v \<Rightarrow> v)"

definition port_line :: "dt_Port \<Rightarrow> line" where
  "port_line port = PortLine (or_default '''' (dp_Name port)) (or_default 0 (dp_Port port)) (or_default ''TCP'' (dp_Protocol port))"

definition endpoint_lines :: "dt_Endpoint \<Rightarrow> line list" where
  "endpoint_lines ep =
     (if \<not> or_default True (de_Ready ep) then []
      else let zone = or_default ''unknown'' (de_Zone ep)
           in map (\<lambda>addr. case de_TargetRef ep of None \<Rightarrow> ExternalIP addr zone | Some pod \<Rightarrow> PodIP addr pod zone)
                (de_Addresses ep))"

definition handleEndpointChange :: "dt_Slice \<Rightarrow> string \<Rightarrow> line list" where
  "handleEndpointChange sl eventType =
     (let l = label (ds_Labels sl) ''kubernetes.io/service-name'';
          serviceName = (if l = '''' then ds_Name sl else l)
      in [SliceLine eventType (ds_Namespace sl) (ds_Name sl) serviceName] @
         map port_line (ds_Ports sl) @ concat (map endpoint_lines (ds_Endpoints sl)))"

definition handlePodChange :: "dt_Pod \<Rightarrow> string \<Rightarrow> line list" where
  "handlePodChange pod eventType = [PodLine eventType (pd_Namespace pod) (pd_Name pod) (pd_IP pod) (pd_Phase pod)]"

definition handleNamespaceChange :: "dt_Namespace \<Rightarrow> string \<Rightarrow> line list" where
  "handleNamespaceChange ns eventType = [NamespaceLine eventType (nm_Name ns) (nm_Phase ns)]"

text \<open>The three functions of an event handler, for any kind of object and its printer.\<close>

datatype 'a informer_event = Added 'a | Updated 'a 'a | Deleted "'a informed"

fun on_event :: "('a \<Rightarrow> string \<Rightarrow> line list) \<Rightarrow> 'a informer_event \<Rightarrow> line list option" where
  "on_event handle (Added obj) = Some (handle obj ''ADDED'')"
| "on_event handle (Updated oldObj newObj) = Some (handle newObj ''MODIFIED'')"
| "on_event handle (Deleted (Informed obj)) = Some (handle obj ''DELETED'')"
| "on_event handle (Deleted Tombstone) = None"

datatype discovery_event =
    ServiceEvent "dt_Service informer_event"
  | SliceEvent "dt_Slice informer_event"
  | PodEvent "dt_Pod informer_event"
  | NamespaceEvent "dt_Namespace informer_event"

fun discovery_handler :: "discovery_event \<Rightarrow> line list option" where
  "discovery_handler (ServiceEvent e) = on_event handleServiceChange e"
| "discovery_handler (SliceEvent e) = on_event handleEndpointChange e"
| "discovery_handler (PodEvent e) = on_event handlePodChange e"
| "discovery_handler (NamespaceEvent e) = on_event handleNamespaceChange e"

text \<open>The output over a sequence of events, up to a panic.\<close>

fun discovery_run :: "discovery_event list \<Rightarrow> line list \<times> bool" where
  "discovery_run [] = ([], True)"
| "discovery_run (e # es) =
     (case discovery_handler e of
        None \<Rightarrow> ([], False)
      | Some ls \<Rightarrow> (case discovery_run es of (out, alive) \<Rightarrow> (ls @ out, alive)))"

section \<open>Agreement with the control plane\<close>

text \<open>The slice as the control plane sees it.\<close>

definition to_slice :: "dt_Slice \<Rightarrow> EndpointSlice" where
  "to_slice sl =
     \<lparr>es_Namespace = ds_Namespace sl, es_Labels = ds_Labels sl, es_Ports = map dp_Port (ds_Ports sl),
      es_Endpoints = map (\<lambda>ep. \<lparr>ke_Addresses = de_Addresses ep, ke_Ready = de_Ready ep\<rparr>) (ds_Endpoints sl)\<rparr>"

fun printed_address :: "line \<Rightarrow> string list" where
  "printed_address (ExternalIP a z) = [a]"
| "printed_address (PodIP a p z) = [a]"
| "printed_address _ = []"

lemma endpoint_addresses:
  "concat (map printed_address (endpoint_lines ep)) = (if de_Ready ep = Some False then [] else de_Addresses ep)"
proof -
  have "concat (map (\<lambda>a. printed_address (case de_TargetRef ep of None \<Rightarrow> ExternalIP a z | Some pod \<Rightarrow> PodIP a pod z)) as) = as" for z as
    by (cases "de_TargetRef ep"; induction as) simp_all
  then show ?thesis by (auto simp: endpoint_lines_def or_default_def comp_def Let_def split: option.splits)
qed

definition tombstone :: "discovery_event \<Rightarrow> bool" where
  "tombstone e \<longleftrightarrow>
     e = ServiceEvent (Deleted Tombstone) \<or> e = SliceEvent (Deleted Tombstone) \<or>
     e = PodEvent (Deleted Tombstone) \<or> e = NamespaceEvent (Deleted Tombstone)"

lemma on_event_None: "on_event handle e = None \<longleftrightarrow> e = Deleted Tombstone"
  by (cases "(handle, e)" rule: on_event.cases) simp_all

lemma concat_map_concat: "concat (map f (concat xss)) = concat (map (\<lambda>xs. concat (map f xs)) xss)"
  by (induction xss) simp_all

text \<open>
  The discovery engine shows what the control plane uses: the addresses printed for a slice
  are, in order, exactly those of the endpoints that the control plane puts into the
  configuration, each with the port of the slice appended there. A run over a sequence of
  events ends early exactly at a deletion reported by a tombstone.
\<close>

theorem discovery_agrees_with_control_plane:
  "map ep_Address (slice_endpoints (to_slice sl)) =
     map (\<lambda>a. a @ '':'' @ itoa (sint (slice_port (to_slice sl)))) (concat (map printed_address (handleEndpointChange sl ev))) \<and>
   (\<not> snd (discovery_run es) \<longleftrightarrow> (\<exists>e\<in>set es. tombstone e))"
proof
  have ports: "concat (map printed_address (map port_line ps)) = []" for ps
    by (induction ps) (simp_all add: port_line_def)
  have "concat (map printed_address (handleEndpointChange sl ev)) =
      concat (map (\<lambda>ep. if de_Ready ep = Some False then [] else de_Addresses ep) (ds_Endpoints sl))"
    by (simp only: handleEndpointChange_def Let_def map_append concat_append ports concat_map_concat map_map comp_def endpoint_addresses)
       (simp add: port_line_def)
  moreover have "map ep_Address (slice_endpoints (to_slice sl)) =
      map (\<lambda>a. a @ '':'' @ itoa (sint (slice_port (to_slice sl))))
        (concat (map (\<lambda>ep. if de_Ready ep = Some False then [] else de_Addresses ep) (ds_Endpoints sl)))"
    by (induction "ds_Endpoints sl" arbitrary: sl)
       (auto simp: slice_endpoints_def to_slice_def map_concat comp_def intro!: arg_cong [of _ _ concat])
  ultimately show "map ep_Address (slice_endpoints (to_slice sl)) =
      map (\<lambda>a. a @ '':'' @ itoa (sint (slice_port (to_slice sl)))) (concat (map printed_address (handleEndpointChange sl ev)))"
    by simp
  show "\<not> snd (discovery_run es) \<longleftrightarrow> (\<exists>e\<in>set es. tombstone e)"
  proof (induction es)
    case (Cons e es)
    have "discovery_handler e = None \<longleftrightarrow> tombstone e"
      by (cases e) (simp_all add: on_event_None tombstone_def)
    then show ?case using Cons.IH
      by (cases "discovery_handler e"; cases "discovery_run es") auto
  qed simp
qed

section \<open>Witness\<close>

theorem discovery_agrees_with_control_plane_witness:
  "discovery_run [NamespaceEvent (Added \<lparr>nm_Name = ''ananse'', nm_Phase = ''Active''\<rparr>), PodEvent (Deleted Tombstone)] =
     ([NamespaceLine ''ADDED'' ''ananse'' ''Active''], False) \<and>
   \<not> snd (discovery_run [PodEvent (Deleted Tombstone)])"
  using discovery_agrees_with_control_plane [of _ _ "[PodEvent (Deleted Tombstone)]"]
  by (simp add: handleNamespaceChange_def tombstone_def)

end
