(* ===== verification/Stress_Tool.thy ===== *)
theory Stress_Tool
  imports Go_Prelude "HOL-Library.Multiset"
begin

text \<open>
  \<open>tools/stress/main.go\<close>: the load generator. Workers loop until the context of the test ends,
  each round doing an action that depends on the mode and counting it under a mutex. What the
  network answers and the random numbers are parameters of a round; an action's result is
  whether it returned an error.
\<close>

section \<open>Actions\<close>

datatype get_result = GetError | GetStatus int

text \<open>\<open>sn_get url\<close> is the result of \<open>client.Get\<close>; \<open>sn_dial\<close> whether the raw connection is made.\<close>

record stress_net =
  sn_get :: "string \<Rightarrow> get_result"
  sn_dial :: bool

definition doNormal :: "string \<Rightarrow> stress_net \<Rightarrow> bool" where
  "doNormal target net =
     (case sn_get net target of GetError \<Rightarrow> True | GetStatus code \<Rightarrow> code \<ge> 500)"

definition doBackendError :: "string \<Rightarrow> stress_net \<Rightarrow> bool" where
  "doBackendError target net =
     (case sn_get net (target @ ''?code=500'') of GetError \<Rightarrow> True | GetStatus code \<Rightarrow> False)"

definition doBackendSlow :: "string \<Rightarrow> stress_net \<Rightarrow> bool" where
  "doBackendSlow target net =
     (case sn_get net (target @ ''?sleep=2000'') of GetError \<Rightarrow> True | GetStatus code \<Rightarrow> False)"

definition doMalformed :: "stress_net \<Rightarrow> bool" where
  "doMalformed net = (\<not> sn_dial net)"

definition doSlowloris :: "stress_net \<Rightarrow> bool" where
  "doSlowloris net = (\<not> sn_dial net)"

text \<open>The action of a round, with \<open>r\<close> the value of \<open>rand.Intn(100)\<close>.\<close>

definition stress_action :: "string \<Rightarrow> string \<Rightarrow> nat \<Rightarrow> stress_net \<Rightarrow> bool" where
  "stress_action mode target r net =
     (if mode = ''mixed''
      then if r < 80 then doNormal target net
           else if r < 90 then doBackendError target net
           else doBackendSlow target net
      else if mode = ''malformed'' then doMalformed net
      else if mode = ''slowloris'' then doSlowloris net
      else doNormal target net)"

section \<open>Workers\<close>

datatype worker = Checking | Acting | Returned

record stress =
  st_ctxDone :: bool
  st_workers :: "worker list"
  successCount :: int64
  failCount :: int64

definition stress_start :: "nat \<Rightarrow> stress" where
  "stress_start workers = \<lparr>st_ctxDone = False, st_workers = replicate workers Checking, successCount = 0, failCount = 0\<rparr>"

definition count_result :: "bool \<Rightarrow> stress \<Rightarrow> stress" where
  "count_result err s = (if \<not> err then s\<lparr>successCount := successCount s + 1\<rparr> else s\<lparr>failCount := failCount s + 1\<rparr>)"

text \<open>
  The steps, with the errors of the finished rounds as a trace: a worker looks at the context and returns
  or acts; it finishes its action; the deadline passes.
\<close>

inductive stress_step :: "string \<Rightarrow> string \<Rightarrow> stress \<times> bool list \<Rightarrow> stress \<times> bool list \<Rightarrow> bool" for mode target where
  w_return: "i < length (st_workers s) \<Longrightarrow> st_workers s ! i = Checking \<Longrightarrow> st_ctxDone s \<Longrightarrow>
    stress_step mode target (s, tr) (s\<lparr>st_workers := (st_workers s)[i := Returned]\<rparr>, tr)"
| w_act: "i < length (st_workers s) \<Longrightarrow> st_workers s ! i = Checking \<Longrightarrow> \<not> st_ctxDone s \<Longrightarrow>
    stress_step mode target (s, tr) (s\<lparr>st_workers := (st_workers s)[i := Acting]\<rparr>, tr)"
| w_count: "i < length (st_workers s) \<Longrightarrow> st_workers s ! i = Acting \<Longrightarrow> r < 100 \<Longrightarrow> err = stress_action mode target r net \<Longrightarrow>
    stress_step mode target (s, tr) (count_result err (s\<lparr>st_workers := (st_workers s)[i := Checking]\<rparr>), tr @ [err])"
| w_deadline: "\<not> st_ctxDone s \<Longrightarrow> stress_step mode target (s, tr) (s\<lparr>st_ctxDone := True\<rparr>, tr)"

section \<open>The report\<close>

lemma count_result_counts:
  "successCount (count_result err s) = successCount s + of_nat (count_list [err] False)"
  "failCount (count_result err s) = failCount s + of_nat (count_list [err] True)"
  "st_workers (count_result err s) = st_workers s" "st_ctxDone (count_result err s) = st_ctxDone s"
  by (simp_all add: count_result_def)

lemma stress_counts:
  assumes "(stress_step mode target)\<^sup>*\<^sup>* (stress_start n, []) (s, tr)"
  shows "successCount s = of_nat (count_list tr False) \<and> failCount s = of_nat (count_list tr True)"
proof -
  have "successCount (fst x) = of_nat (count_list (snd x) False) \<and> failCount (fst x) = of_nat (count_list (snd x) True)"
    if "(stress_step mode target)\<^sup>*\<^sup>* (stress_start n, []) x" for x
    using that
  proof (induction rule: rtranclp_induct)
    case (step x y)
    from step.hyps(2) step.IH show ?case
      by (cases rule: stress_step.cases) (auto simp: count_result_counts)
  qed (simp add: stress_start_def)
  from this [OF assms] show ?thesis by simp
qed

text \<open>After the deadline a worker finishes at most the round it is in.\<close>

fun work_left :: "worker \<Rightarrow> nat" where
  "work_left Checking = 1"
| "work_left Acting = 2"
| "work_left Returned = 0"

definition stress_left :: "stress \<Rightarrow> nat" where
  "stress_left s = sum_list (map work_left (st_workers s))"

lemma sum_list_less:
  "i < length ws \<Longrightarrow> work_left w < work_left (ws ! i) \<Longrightarrow>
   sum_list (map work_left (ws[i := w])) < sum_list (map work_left ws)"
proof (induction ws arbitrary: i)
  case (Cons v ws)
  then show ?case by (cases i) auto
qed simp

lemma stress_decreases:
  assumes "stress_step mode target (s, tr) (s', tr')" "st_ctxDone s"
  shows "st_ctxDone s' \<and> stress_left s' < stress_left s"
  using assms(1)
  by (cases rule: stress_step.cases)
     (use assms(2) in \<open>auto simp: stress_left_def count_result_counts intro!: sum_list_less\<close>)

lemma stress_progress:
  assumes "st_ctxDone s" "w \<in> set (st_workers s)" "w \<noteq> Returned"
  shows "\<exists>y. stress_step mode target (s, tr) y"
proof -
  obtain i where i: "i < length (st_workers s)" "st_workers s ! i = w" using assms(2) by (auto simp: in_set_conv_nth)
  show ?thesis
  proof (cases w)
    case Checking
    then show ?thesis using w_return [of i s mode target tr] i assms(1) by blast
  next
    case Acting
    then show ?thesis using w_count [of i s 0 _ mode target undefined tr] i by fastforce
  qed (use assms(3) in simp)
qed

text \<open>
  The report is right and comes: in every reachable state the two counters are the numbers of
  rounds without and with an error; and after the deadline every step brings the end
  nearer, a step is possible as long as a worker has not returned, so \<open>wg.Wait\<close> returns after at most
  two steps per worker.
\<close>

theorem stress_reports:
  assumes "(stress_step mode target)\<^sup>*\<^sup>* (stress_start n, []) (s, tr)"
  shows "successCount s = of_nat (count_list tr False) \<and> failCount s = of_nat (count_list tr True) \<and>
    (st_ctxDone s \<longrightarrow>
      (\<forall>s' tr'. stress_step mode target (s, tr) (s', tr') \<longrightarrow> st_ctxDone s' \<and> stress_left s' < stress_left s) \<and>
      ((\<nexists>y. stress_step mode target (s, tr) y) \<longleftrightarrow> (\<forall>w\<in>set (st_workers s). w = Returned)))"
proof -
  have "\<not> stress_step mode target (s, tr) y" if "\<forall>w\<in>set (st_workers s). w = Returned" "st_ctxDone s" for y
  proof
    have r: "st_workers s ! i = Returned" if "i < length (st_workers s)" for i
      using \<open>\<forall>w\<in>set (st_workers s). w = Returned\<close> that by simp
    assume "stress_step mode target (s, tr) y"
    then show False by (cases rule: stress_step.cases) (use r that in auto)
  qed
  then show ?thesis using stress_counts [OF assms] stress_decreases stress_progress by blast
qed

theorem stress_reports_witness: "successCount (stress_start 2) = 0 \<and> failCount (stress_start 2) = 0"
  using stress_reports [OF rtranclp.rtrancl_refl, of 2] by simp

end
