(* ===== verification/Spec2Isabelle.thy ===== *)
theory Spec2Isabelle
  imports Data_Plane Proxy_Handler Sidecar_Outbound Sidecar_Inbound Control_Main
    File_Client Injector Tracing Proxy_Main
    Metric_Safety Demo_Services Discovery_Tool Stress_Tool
begin

text \<open>
  \<^bold>\<open>Ananse, a service mesh.\<close> A control plane (\<open>src/controlplane\<close>) discovers services in a Kubernetes
  cluster, a Consul catalog or a file, and streams configurations to proxies (\<open>src/pkg/proxy\<close>,
  \<open>src/proxy\<close>). A proxy runs as a gateway, which routes HTTP requests by path and method, or as a
  sidecar, which takes over the connections of one pod and finds services by cluster IP and
  port. Both balance over a pool of backends with circuit breakers, retry up to three times, and
  are fed by the same configuration handler. A webhook injects the sidecars into pods.

  This development translates the Go code into HOL definitions that keep its names, its control
  flow and its errors, and proves what makes the parts correct, alone and together. The theories,
  bottom up:

  \<^item> \<open>Go_Prelude\<close>: machine integers, ranges over maps in every iteration order, string functions
    of the standard library (\<open>itoa\<close>, \<open>ToUpper\<close>, prefixes, substrings), the proof collections.
  \<^item> \<open>Metrics\<close> (\<open>metrics.go\<close>): a metric call is an entry of a trace, and each series has
    the number of labels it was declared with. \<open>Metric_Safety\<close> shows that every handler of the
    proxy makes only calls that fit these declarations, which the metrics library panics on otherwise.
  \<^item> \<open>Backend_Circuit\<close> (\<open>backend.go\<close>, \<open>Backend\<close>): counters and durations at their width. Healthy
    backends are closed; every method refines a three-state breaker; the breaker opens at the fifth
    failure with a doubling backoff that does not overflow up to 36 failures; an open circuit
    ends after exactly \<open>resetTimeOut div checkInterval\<close> queries.
  \<^item> \<open>Backend_Pool\<close> (\<open>backend.go\<close>, \<open>BackendPool\<close>): an explicit store of backends, since configurations,
    requests and drains share pointers. Active counters equal the requests in flight in every
    reachable pool; replaced backends are found and, under every schedule, closed.
  \<^item> \<open>Load_Balancer\<close> (\<open>loadbalancer.go\<close>): both strategies; a healthy backend is chosen iff one exists.
  \<^item> \<open>Config_Types\<close>, \<open>Routing\<close> (\<open>controlplane.proto\<close>, \<open>dataplane.go\<close>, \<open>Router.go\<close>): validation accepts
    exactly the well-formed configurations, with accurate errors; lookups are correct for every
    iteration order.
  \<^item> \<open>Health_Check\<close> (\<open>health.go\<close>): a round under every interleaving of its probes, and the life
    cycle of the checking goroutines as a step relation.
  \<^item> \<open>Data_Plane\<close> (\<open>dataplane.go\<close>): \<open>HandleConfig\<close> applies a configuration as a whole or not at all,
    what it leaves behind, the invariant of reachable proxies, and the reconnecting client.
  \<^item> \<open>Reverse_Proxy\<close>, \<open>Retry_Loop\<close>, \<open>Proxy_Handler\<close> (\<open>reverseProxy.go\<close>, \<open>helpers.go\<close>, \<open>handler.go\<close>): rewriting,
    and the gateway's handler. The loop shared with the sidecar is a locale, interpreted for both.
    Every request is answered, every backend taken is given back, and a live
    backend is reached if at most two others fail.
  \<^item> \<open>Sidecar_Net\<close>, \<open>Sidecar_Outbound\<close>, \<open>Sidecar_Inbound\<close> (\<open>listener.go\<close>, \<open>originaldst.go\<close>): protocol detection, the
    original destination, probes; the outbound handler; TLS detection, the inbound handler and the
    bidirectional copy with its half-closes.
  \<^item> \<open>Cert_Watcher\<close> (\<open>cert_watcher.go\<close>): certificates follow their files, if the changes are reported
    under their names; \<open>LoadMTLSConfig\<close>, the older loader, agrees with a reload.
  \<^item> \<open>Tracing\<close> (\<open>tracer.go\<close>): the span filter and the decisions of the set-up.
  \<^item> \<open>Proxy_Main\<close> (\<open>proxy/main.go\<close>, \<open>gateway.go\<close>, \<open>StartSidecarProxy\<close>): a proxy process from its start.
  \<^item> \<open>Process_Life\<close> (\<open>gateway.go\<close>, \<open>listener.go\<close>, the mains under \<open>services\<close>): serving, the metrics ticker
    and the shutdown of a gateway, a sidecar and a service as step relations; their contract as the
    locale \<open>stopping_process\<close>, interpreted for the three; which of them wait for the requests in flight.
  \<^item> \<open>Control_Server\<close> (\<open>cmd/server.go\<close>): sessions, updates and shutdown under every interleaving;
    every registered subscriber ends up with the current configuration.
  \<^item> \<open>Config_Source\<close> (\<open>watcher.go\<close>): the contract of a configuration source as the locale
    \<open>config_source\<close>, extended by \<open>debounced_source\<close> for the debouncer that two sources share;
    interpreted in \<open>K8s_Client\<close> (\<open>k8s-client.go\<close>), \<open>Consul_Client\<close> (\<open>consul-client.go\<close>) and \<open>File_Client\<close>
    (\<open>file-client.go\<close>), which also prove what the configurations contain and when proxies accept
    them.
  \<^item> \<open>Control_Main\<close> (\<open>cmd/main.go\<close>): the choice of a source with its constructor's errors, and
    source, forwarding and server together; the convergence of the
    whole is proved once in \<open>debounced_source\<close> and holds for Kubernetes and Consul.
  \<^item> \<open>Injector\<close> (\<open>injector.go\<close>): which pods are patched and with what, and that a rewritten probe
    arrives at the application through the sidecar; the routes and the life of the webhook server
    (\<open>webhook.go\<close>).
  \<^item> \<open>Demo_Services\<close> (\<open>services/*/main.go\<close>): the handlers of the five demo services and their health
    switch, composed with the health checker and the balancer.
  \<^item> \<open>Discovery_Tool\<close> (\<open>src/k8s-client/main.go\<close>): what the discovery engine prints, compared with what the control
    plane takes from the same slice; \<open>Stress_Tool\<close> (\<open>tools/stress/main.go\<close>): the load
    generator's workers as a step relation, whose report is right and comes.
  \<^item> This theory: the way from the cluster to the routes and backends of a proxy, and what happens
    to a proxy that starts before the first discovery.

  \<^bold>\<open>Conventions.\<close> A mutable Go object is a record passed explicitly; pointers that are shared are
  references into the store. An error is a value of a datatype per function, a panic is a
  result of its own (\<open>Panicked\<close>, \<open>Panic\<close>, \<open>Crashed\<close>, or \<open>None\<close> where nothing else can happen). The iteration order
  of a map is a list argument, constrained by \<open>range_order\<close> where a theorem needs it.
  Goroutines, timers and channels are step relations, with a mutex making a step atomic; the
  activity of others during a network call is a function on the store, which theorems
  constrain to reachable pools. Libraries and the network are parameters: \<open>url.Parse\<close>, the HTTP
  transport, TLS and certificates, fsnotify, viper, client-go, the Consul API, JSON, the
  environment. Logs and spans are left out of the handlers; metrics are not.

  \<^bold>\<open>Bounds.\<close> No definition uses fuel. Retries are bounded by the code's constant 3, channels by
  their capacities (10 for a subscriber, 5 for a source, 1 for signals), drains by a list of
  wake-ups that stands for the ticker and the timeout, sessions of the configuration client by the list of
  the streams the network delivers.

  \<^bold>\<open>Not modelled.\<close> The protobuf and gRPC code is generated, and only its messages occur. \<open>Transport\<close>,
  \<open>NewConfigClient\<close>, \<open>Server.Start\<close>, \<open>startAdminServer\<close>'s listening, the TLS listening of \<open>StartInjection\<close>, the tracer provider
  that \<open>InitTracer\<close> installs, \<open>InitLogger\<close> and \<open>MustParse\<close> only configure or start objects of libraries. Log
  lines and spans have no effect on the rest and are left out, also of the demo services.
\<close>

section \<open>From the cluster to the proxies\<close>

text \<open>Clusters whose configuration the proxies accept.\<close>

definition cluster_ok :: "(string \<Rightarrow> URL option) \<Rightarrow> k8s_world \<Rightarrow> bool" where
  "cluster_ok parse w \<longleftrightarrow>
     mesh_services w \<noteq> [] \<and> distinct (map ks_Name (mesh_services w)) \<and>
     (\<forall>svc\<in>set (mesh_services w). ks_Name svc \<noteq> '''' \<and>
        distinct (map ep_Address (buildEndpoints (snd w) (ks_Namespace svc) (ks_Name svc) [])) \<and>
        (\<forall>ep\<in>set (buildEndpoints (snd w) (ks_Namespace svc) (ks_Name svc) []). parse (endpoint_url (ep_Address ep)) \<noteq> None))"

definition cluster_vip :: "k8s_world \<Rightarrow> k8s_Service \<Rightarrow> string \<Rightarrow> bool" where
  "cluster_vip w svc vip \<longleftrightarrow>
     ks_ClusterIP svc \<noteq> '''' \<and> sint (svc_Port (to_pb (snd w) svc)) > 0 \<and>
     vip = vip_key (ks_ClusterIP svc) (sint (svc_Port (to_pb (snd w) svc)))"

lemma cluster_services: "cfg_Services (k8s_buildConfig w t) = map (to_pb (snd w)) (mesh_services w)"
  using add_services_eq [of "fst w" "snd w" "[]"] by (simp add: k8s_buildConfig_def)

lemma cluster_acceptable:
  assumes "cluster_ok parse w" "cfg_Services c = cfg_Services (k8s_buildConfig w t)"
  shows "acceptable parse c"
proof -
  have "config_ok (k8s_buildConfig w t)" using assms(1) by (simp add: k8s_config_ok cluster_ok_def)
  then have "config_ok c" using assms(2) by (simp add: config_ok_def)
  moreover have "urls_ok parse c"
    using assms by (simp add: urls_ok_def cluster_services cluster_ok_def to_pb_def)
  ultimately show ?thesis using assms by (simp add: acceptable_def cluster_services cluster_ok_def)
qed

lemma cluster_table:
  assumes "cluster_ok parse w" "cfg_Services c = cfg_Services (k8s_buildConfig w t)"
  shows "table_of c n = Some r \<longleftrightarrow> (\<exists>svc\<in>set (mesh_services w). ks_Name svc = n \<and> r = routing_of (to_pb (snd w) svc))"
proof -
  have ok: "config_ok c" using cluster_acceptable [OF assms] by (simp add: acceptable_def)
  have "table_of c n = Some r \<longleftrightarrow> (\<exists>s\<in>set (map (to_pb (snd w)) (mesh_services w)). svc_Name s = n \<and> r = routing_of s)"
    using table_of_Some [OF ok] unfolding assms(2) cluster_services by blast
  moreover have "svc_Name (to_pb slices svc) = ks_Name svc" for slices svc by (simp add: to_pb_def)
  ultimately show ?thesis by simp
qed

lemma cluster_routes:
  "serves (routing_of (to_pb slices svc)) path meth \<longleftrightarrow> path = ''/'' @ ks_Name svc \<and> meth \<in> set mesh_methods"
proof -
  have "route_methods mesh_methods = set mesh_methods"
  proof -
    have "map ToUpper (filter (\<lambda>m. m \<noteq> '''') mesh_methods) = mesh_methods" by code_simp
    then show ?thesis unfolding route_methods_def by simp
  qed
  then show ?thesis by (auto simp: serves_def routing_of_def to_pb_def)
qed

lemma cluster_has_vip: "has_vip (routing_of (to_pb (snd w) svc)) vip \<longleftrightarrow> cluster_vip w svc vip"
  by (simp add: has_vip_def routing_of_def cluster_vip_def to_pb_def)

lemma fresh_map_urls:
  assumes "fresh_map parse table base st m" "m n = Some bs" "table n = Some svc"
  shows "map (\<lambda>r. TargetUrl (heap st r)) bs = map (\<lambda>ep. the (parse (endpoint_url (Address ep)))) (Endpoints svc) \<and>
    (\<forall>r\<in>set bs. IsHealthy (heap st r))"
proof -
  note b = fresh_map_backends [OF assms]
  have "map (\<lambda>r. TargetUrl (heap st r)) bs = map (\<lambda>ep. the (parse (endpoint_url (Address ep)))) (Endpoints svc)"
    using b by (intro nth_equalityI) (simp_all add: fresh_backend_def)
  moreover have "IsHealthy (heap st r)" if "r \<in> set bs" for r
    using b that by (auto simp: in_set_conv_nth fresh_backend_def IsHealthy_def)
  ultimately show ?thesis by blast
qed

text \<open>
  C27. From the cluster to a proxy: if the mesh services of the cluster have different names, list no
  address twice and their addresses parse, then the configuration that the control plane builds
  and stamps is applied by every proxy that gets it, in whatever state it is. Afterwards the
  gateway routes the path of every service to it for all five methods, the sidecar finds it
  under its cluster IP and port if no other service has these, and its backends are, in
  order, exactly its ready endpoints, all of them healthy.
\<close>

theorem cluster_reaches_proxy:
  assumes "cluster_ok parse w" "UpdateConfig order (k8s_buildConfig w t) now s = Next s'"
    "range_order (table_of (currentConfig s')) o2" "range_order (table_of (currentConfig s')) o3"
    "range_order (table_of (currentConfig s')) o4"
    "HandleConfig parse o1 o2 o3 o4 (Some (currentConfig s')) ps = (res, ps')"
  shows "res = Applied \<and> GetVersion ps' = cfg_Version (currentConfig s') \<and>
    (\<exists>R. ps_Router ps' = Some R \<and>
      (\<forall>svc\<in>set (mesh_services w).
        (\<forall>meth\<in>set mesh_methods. FindService R (''/'' @ ks_Name svc) meth = Inr (ks_Name svc)) \<and>
        (\<forall>vip. cluster_vip w svc vip \<and> (\<forall>svc'\<in>set (mesh_services w). cluster_vip w svc' vip \<longrightarrow> svc' = svc) \<longrightarrow>
          FindServiceByVIP R vip = Inr (ks_Name svc)) \<and>
        (\<exists>bs. Backends (store ps') (ks_Name svc) = Some bs \<and>
          map (\<lambda>r. TargetUrl (heap (store ps') r)) bs =
            map (\<lambda>ep. the (parse (endpoint_url (ep_Address ep)))) (buildEndpoints (snd w) (ks_Namespace svc) (ks_Name svc) []) \<and>
          (\<forall>r\<in>set bs. IsHealthy (heap (store ps') r)))))"
proof -
  let ?c = "currentConfig s'"
  have svcs: "cfg_Services ?c = cfg_Services (k8s_buildConfig w t)" "cfg_ProxyConfig ?c \<noteq> None"
    using UpdateConfig_content [OF assms(2)] by (simp_all add: same_content_def k8s_buildConfig_def)
  note table = cluster_table [OF assms(1) svcs(1)]
  from assms(6,3) show ?thesis
  proof (cases rule: HandleConfig_cases [consumes 2])
    case rejected
    then have False using cluster_acceptable [OF assms(1) svcs(1)] by blast
    then show ?thesis ..
  next
    case (accepted m st R)
    obtain rt r where R: "R = UpdateRoutes o3 o4 rt r" "Services rt = table_of ?c" using accepted(9) by blast
    have store: "Backends (store ps') = m" "heap (store ps') = heap st"
      using accepted(5) by (simp_all add: UpdateBackends_def)
    have "FindService R (''/'' @ ks_Name svc) meth = Inr (ks_Name svc)"
      if "svc \<in> set (mesh_services w)" "meth \<in> set mesh_methods" for svc meth
      unfolding R(1) using that assms(4) R(2)
      by (intro FindService_unique [where svc = "routing_of (to_pb (snd w) svc)"]) (auto simp: table cluster_routes)
    moreover have "FindServiceByVIP R vip = Inr (ks_Name svc)"
      if "svc \<in> set (mesh_services w)" "cluster_vip w svc vip"
        "\<forall>svc'\<in>set (mesh_services w). cluster_vip w svc' vip \<longrightarrow> svc' = svc" for svc vip
      unfolding R(1)
    proof (rule FindServiceByVIP_own [where svc = "routing_of (to_pb (snd w) svc)"])
      show "range_order (Services rt) o4" using assms(5) R(2) by simp
      show "Services rt (ks_Name svc) = Some (routing_of (to_pb (snd w) svc))" using that(1) by (auto simp: R(2) table)
      show "has_vip (routing_of (to_pb (snd w) svc)) vip" using that(2) by (simp add: cluster_has_vip)
      show "n' = ks_Name svc" if "Services rt n' = Some svc'" "has_vip svc' vip" for n' svc'
        using that \<open>\<forall>svc'\<in>set (mesh_services w). cluster_vip w svc' vip \<longrightarrow> svc' = svc\<close>
        unfolding R(2) table using cluster_has_vip by metis
    qed
    moreover have "\<exists>bs. m (ks_Name svc) = Some bs \<and>
        map (\<lambda>r. TargetUrl (heap st r)) bs =
          map (\<lambda>ep. the (parse (endpoint_url (ep_Address ep)))) (buildEndpoints (snd w) (ks_Namespace svc) (ks_Name svc) []) \<and>
        (\<forall>r\<in>set bs. IsHealthy (heap st r))" if "svc \<in> set (mesh_services w)" for svc
    proof -
      have t: "table_of ?c (ks_Name svc) = Some (routing_of (to_pb (snd w) svc))" using that by (auto simp: table)
      then obtain bs where "m (ks_Name svc) = Some bs" using accepted(4) by blast
      then show ?thesis using fresh_map_urls [OF accepted(3) _ t] by (simp add: routing_of_def to_pb_def comp_def)
    qed
    moreover have "res = Applied \<and> GetVersion ps' = cfg_Version ?c"
      using accepted(10) svcs(2) by (auto simp: GetVersion_def)
    ultimately show ?thesis unfolding store using accepted(8) by blast
  qed
qed

lemma example_cluster_ok: "cluster_ok example_parse example_cluster"
proof -
  have "mesh_services example_cluster = [ks]" if "Obj ks = fst example_cluster ! 1" for ks
    using that by (auto simp: example_cluster_def mesh_services_def in_mesh_def label_def slice_endpoints_def
        slice_port_def List.map_filter_simps)
  then show ?thesis
    by (auto simp: cluster_ok_def example_cluster_def label_def slice_endpoints_def slice_port_def
        example_parse_def endpoint_url_def HasPrefix_def)
qed

theorem cluster_reaches_proxy_witness:
  "\<exists>s' ps' R. UpdateConfig [] (k8s_buildConfig example_cluster 0) 0 (NewServer None 0) = Next s' \<and>
     HandleConfig example_parse [''users''] [''users''] [''users''] [''users''] (Some (currentConfig s')) NewProxyState = (Applied, ps') \<and>
     ps_Router ps' = Some R \<and> FindService R ''/users'' ''GET'' = Inr ''users''"
proof -
  obtain s' where s': "UpdateConfig [] (k8s_buildConfig example_cluster 0) 0 (NewServer None 0) = Next s'"
    by (simp add: UpdateConfig_def Let_def)
  obtain res ps' where h: "HandleConfig example_parse [''users''] [''users''] [''users''] [''users'']
      (Some (currentConfig s')) NewProxyState = (res, ps')" by fastforce
  have "svc_Name ` set (cfg_Services (currentConfig s')) = {''users''}"
  proof -
    have "map svc_Name (cfg_Services (currentConfig s')) = map ks_Name (mesh_services example_cluster)"
      using UpdateConfig_content [OF s'] by (simp add: same_content_def cluster_services to_pb_def)
    then show ?thesis unfolding example_cluster_services(1) by (metis list.set(1,2) set_map)
  qed
  then have o: "range_order (table_of (currentConfig s')) [''users'']" by (simp add: range_order_def dom_table_of)
  have "''users'' \<in> ks_Name ` set (mesh_services example_cluster)"
    using arg_cong [OF example_cluster_services(1), of set] by simp
  then obtain svc where "''users'' = ks_Name svc" "svc \<in> set (mesh_services example_cluster)" by (rule imageE)
  note svc = this(2) this(1) [symmetric]
  have "''GET'' \<in> set mesh_methods" by (simp add: mesh_methods_def)
  with cluster_reaches_proxy [OF example_cluster_ok s' o o o h] svc(1)
  obtain R where R: "res = Applied" "ps_Router ps' = Some R"
      "FindService R (''/'' @ ks_Name svc) ''GET'' = Inr (ks_Name svc)" by blast
  then have "FindService R ''/users'' ''GET'' = Inr ''users''" unfolding svc(2) by simp
  with s' h R(1,2) show ?thesis by metis
qed

section \<open>Starting before the first discovery\<close>

text \<open>What a new server gives to its first subscriber: a configuration without services.\<close>

lemma first_snapshot:
  assumes "sub_register sid pid (NewServer None start) = Next s1" "sub_step sid (SendSnapshot True) s1 = Next s2"
    "sessions s2 sid = Some se"
  shows "\<exists>c0. se_sent se = [c0] \<and> cfg_Services c0 = []"
  using assms by (auto simp: sub_register_def sub_step_def NewServer_def Let_def)

lemma start_mode_captures:
  assumes "components_inv parse ps cs" "getenv ''ANANSE_MTLS_ENABLED'' \<noteq> ''true''"
  shows "captured_of (start_mode getenv watch_dir ps) = Some (capture ps)"
  using assms by (auto simp: start_mode_def StartSidecarProxy_def StartGateway_def GetPort_def components_inv_def
      captured_of_def Let_def split: option.splits)

lemma captured_alive: "captured_of (pm_phase m) = Some cap \<Longrightarrow> alive m"
  by (auto simp: captured_of_def alive_def split: phase.splits)

text \<open>
  C29. A proxy that subscribes before the control plane discovered anything never balances: the first
  configuration is the server's empty snapshot, which the proxy cannot apply, but which
  counts as its initial configuration. There is a run in which the proxy then starts, and every acceptable configuration
  that follows makes it ready with the new version, while every request that finds a service, in the
  gateway or in the sidecar, dereferences the nil load balancer that was copied at the start.
\<close>

theorem early_proxy_never_balances:
  assumes "sub_register sid pid (NewServer None start) = Next s1" "sub_step sid (SendSnapshot True) s1 = Next s2"
    "sessions s2 sid = Some se" "acceptable parse c" "cfg_ProxyConfig c \<noteq> None" "range_order (table_of c) o2"
    "getenv ''ANANSE_MTLS_ENABLED'' \<noteq> ''true''"
  shows "\<exists>m cap R. main_reach parse getenv watch_dir m \<and> pm_received m = se_sent se @ [c] \<and>
    IsReady (pm_state m) \<and> GetVersion (pm_state m) = cfg_Version c \<and>
    captured_of (pm_phase m) = Some cap \<and> ps_Router (pm_state m) = Some R \<and>
    (\<forall>path meth n. FindService R path meth = Inr n \<longrightarrow> gateway_admit cap R path meth = NilBalancer) \<and>
    (\<forall>target n. FindServiceByVIP R target = Inr n \<longrightarrow> sidecar_admit cap R target = NilBalancer)"
proof -
  obtain c0 where c0: "se_sent se = [c0]" "cfg_Services c0 = []" using first_snapshot [OF assms(1-3)] by blast
  have na: "\<not> acceptable parse c0" using c0(2) by (simp add: acceptable_def)
  have o0: "range_order (table_of c0) []" using c0(2) by (simp add: range_order_def services_of_def)
  let ?m1 = "onConfig parse [] [] [] [] c0 main_init"
  let ?m2 = "?m1\<lparr>pm_phase := start_mode getenv watch_dir (pm_state ?m1)\<rparr>"
  let ?m3 = "onConfig parse [] o2 [] [] c ?m2"
  have start: "alive main_init" by (simp add: alive_def main_init_def)
  have r1: "main_reach parse getenv watch_dir ?m1" by (rule main_config [OF main_start start o0])
  obtain r0 p0 where h0: "HandleConfig parse [] [] [] [] (Some c0) NewProxyState = (r0, p0)" by fastforce
  have "r0 \<noteq> Panicked" using HandleConfig_Panicked [of parse "[]" "[]" "[]" "[]" c0] h0 o0 na by blast
  then have m1: "pm_phase ?m1 = Starting" "firstConfigReady ?m1" "pm_received ?m1 = [c0]" "alive ?m1"
    using h0 by (simp_all add: onConfig_def main_init_def alive_def)
  have comp: "components_inv parse (pm_state ?m1) [c0]"
    using main_inv_reach [OF r1] m1(3,4) by (simp add: main_inv_def)
  have cap: "captured_of (pm_phase ?m2) = Some (capture (pm_state ?m1))" "\<not> c_LoadBalancer (capture (pm_state ?m1))"
    using start_mode_captures [where getenv = getenv, OF comp assms(7)] comp na by (simp_all add: components_inv_def)
  have r3: "main_reach parse getenv watch_dir ?m3"
    by (rule main_config [OF main_ready [OF r1 m1(1,2)] captured_alive [OF cap(1)] assms(6)])
  obtain res ps where h: "HandleConfig parse [] o2 [] [] (Some c) (pm_state ?m2) = (res, ps)" by fastforce
  from h assms(6) obtain R where R: "res = Applied" "IsReady ps" "GetVersion ps = cfg_Version c" "ps_Router ps = Some R"
  proof (cases rule: HandleConfig_cases [consumes 2])
    case (accepted m st R)
    then show ?thesis using that assms(5) update_health_Some by (auto simp: IsReady_def GetVersion_def)
  qed (use assms(4) in blast)
  have m3: "pm_state ?m3 = ps" "pm_phase ?m3 = pm_phase ?m2" "pm_received ?m3 = [c0, c]"
    using h R(1) m1(3) by (simp_all add: onConfig_def)
  show ?thesis
    by (rule exI [of _ ?m3], rule exI [of _ "capture (pm_state ?m1)"], rule exI [of _ R])
       (use r3 m3 R cap c0 in \<open>simp add: gateway_admit_def sidecar_admit_def\<close>)
qed

theorem early_proxy_never_balances_witness:
  "\<exists>m cap R. main_reach example_parse (\<lambda>_. '''') (\<lambda>_. Inl WatcherError) m \<and> length (pm_received m) = 2 \<and>
     IsReady (pm_state m) \<and> captured_of (pm_phase m) = Some cap \<and> ps_Router (pm_state m) = Some R \<and>
     (\<forall>path meth n. FindService R path meth = Inr n \<longrightarrow> gateway_admit cap R path meth = NilBalancer)"
proof -
  obtain s1 where s1: "sub_register 0 ''p'' (NewServer None 0) = Next s1"
    by (simp add: sub_register_def NewServer_def Let_def)
  then obtain s2 se where s2: "sub_step 0 (SendSnapshot True) s1 = Next s2" "sessions s2 0 = Some se" "length (se_sent se) = 1"
    by (auto simp: sub_register_def sub_step_def NewServer_def Let_def)
  have "cfg_ProxyConfig example_cfg \<noteq> None" by (simp add: example_cfg_def example_config_def)
  note early = early_proxy_never_balances [where getenv = "\<lambda>_. ''''" and watch_dir = "\<lambda>_. Inl WatcherError",
      OF s1 s2(1,2) example_acceptable this example_order]
  then obtain m cap R where "main_reach example_parse (\<lambda>_. '''') (\<lambda>_. Inl WatcherError) m"
    "pm_received m = se_sent se @ [example_cfg]" "IsReady (pm_state m)" "captured_of (pm_phase m) = Some cap"
    "ps_Router (pm_state m) = Some R"
    "\<forall>path meth n. FindService R path meth = Inr n \<longrightarrow> gateway_admit cap R path meth = NilBalancer"
    by auto
  with s2(3) show ?thesis by (metis add_One_commute length_append length_Cons list.size(3) one_add_one One_nat_def plus_1_eq_Suc)
qed

end
